theory Spec2Isabelle
  imports Main "HOL-Library.AList"
begin

section \<open>Python strings\<close>

text \<open>
  A Python \<open>str\<close> is modelled as a \<^typ>\<open>string\<close>: a list of code points below 256
  (Latin-1).  The character classes below are the ones the Python built-ins use,
  restricted to that range.
\<close>

definition DOUBLE_QUOTE :: char where "DOUBLE_QUOTE = CHR 0x22"
definition BACKSLASH :: char where "BACKSLASH = CHR 0x5C"
definition NEWLINE :: char where "NEWLINE = CHR 0x0A"
definition CARRIAGE_RETURN :: char where "CARRIAGE_RETURN = CHR 0x0D"
definition TAB :: char where "TAB = CHR 0x09"
definition COMMA :: char where "COMMA = CHR '',''"
definition COLON :: char where "COLON = CHR '':''"
definition SPACE :: char where "SPACE = CHR '' ''"
definition PIPE :: char where "PIPE = CHR ''|''"
definition HASH :: char where "HASH = CHR ''#''"
definition OPEN_BRACKET :: char where "OPEN_BRACKET = CHR ''[''"
definition CLOSE_BRACKET :: char where "CLOSE_BRACKET = CHR '']''"
definition OPEN_BRACE :: char where "OPEN_BRACE = CHR ''{''"
definition CLOSE_BRACE :: char where "CLOSE_BRACE = CHR ''}''"
definition LIST_ITEM_MARKER :: string where "LIST_ITEM_MARKER = ''-''"
definition LIST_ITEM_PREFIX :: string where "LIST_ITEM_PREFIX = ''- ''"
definition NULL_LITERAL :: string where "NULL_LITERAL = ''null''"
definition TRUE_LITERAL :: string where "TRUE_LITERAL = ''true''"
definition FALSE_LITERAL :: string where "FALSE_LITERAL = ''false''"
definition DEFAULT_DELIMITER :: char where "DEFAULT_DELIMITER = COMMA"

text \<open>\<open>str.isspace\<close> on one character: the set \<open>str.strip()\<close> removes.\<close>

definition py_isspace :: "char \<Rightarrow> bool" where
  "py_isspace c =
     (let n = of_char c :: nat
      in (9 \<le> n \<and> n \<le> 13) \<or> (28 \<le> n \<and> n \<le> 32) \<or> n = 133 \<or> n = 160)"

definition py_lstrip :: "string \<Rightarrow> string" where
  "py_lstrip s = dropWhile py_isspace s"

definition py_rstrip :: "string \<Rightarrow> string" where
  "py_rstrip s = rev (dropWhile py_isspace (rev s))"

definition py_strip :: "string \<Rightarrow> string" where
  "py_strip s = py_rstrip (py_lstrip s)"

text \<open>\<open>s.startswith(p)\<close> and \<open>s.endswith(p)\<close>.\<close>

definition startswith :: "string \<Rightarrow> string \<Rightarrow> bool" where
  "startswith s p = (take (length p) s = p)"

definition endswith :: "string \<Rightarrow> string \<Rightarrow> bool" where
  "endswith s p = (length p \<le> length s \<and> drop (length s - length p) s = p)"

text \<open>\<open>sep.join(xs)\<close> for a one-character separator.\<close>

fun py_join :: "char \<Rightarrow> string list \<Rightarrow> string" where
  "py_join d [] = []"
| "py_join d [x] = x"
| "py_join d (x # y # ys) = x @ d # py_join d (y # ys)"

text \<open>\<open>s.split(c)\<close> for a one-character separator: never empty.\<close>

fun py_split :: "char \<Rightarrow> string \<Rightarrow> string list" where
  "py_split d [] = [[]]"
| "py_split d (c # cs) =
     (if c = d then [] # py_split d cs
      else (case py_split d cs of [] \<Rightarrow> [[c]] | x # xs \<Rightarrow> (c # x) # xs))"

text \<open>
  \<open>s.find(c, start)\<close> for a one-character needle and \<open>start \<ge> 0\<close>: the index of the
  first occurrence at or after \<open>start\<close>; \<open>None\<close> is Python's \<open>-1\<close>.
\<close>

fun find_from :: "string \<Rightarrow> char \<Rightarrow> nat \<Rightarrow> nat option" where
  "find_from [] c k = None"
| "find_from (x # xs) c k = (if x = c then Some k else find_from xs c (Suc k))"

definition py_find :: "string \<Rightarrow> char \<Rightarrow> nat \<Rightarrow> nat option" where
  "py_find s c start = find_from (drop start s) c start"

text \<open>The slice \<open>s[a:b]\<close> for \<open>0 \<le> a\<close>, \<open>0 \<le> b\<close>.\<close>

definition slice :: "'a list \<Rightarrow> nat \<Rightarrow> nat \<Rightarrow> 'a list" where
  "slice s a b = take (b - a) (drop a s)"

section \<open>Coalescing of split tokens (decoders.py)\<close>

text \<open>
  \<open>[delimiter.join(values[i : i + chunk_size]) for i in range(0, len(values), chunk_size)]\<close>
\<close>

function chunk_join :: "char \<Rightarrow> nat \<Rightarrow> string list \<Rightarrow> string list" where
  "chunk_join d k vs =
     (if vs = [] \<or> k = 0 then []
      else py_join d (take k vs) # chunk_join d k (drop k vs))"
  by pat_completeness auto
termination
  by (relation "measure (\<lambda>(d, k, vs). length vs)") auto

declare chunk_join.simps [simp del]

definition coalesce_inline_values :: "string list \<Rightarrow> int \<Rightarrow> char \<Rightarrow> string list" where
  "coalesce_inline_values vals expected delimiter =
     (if expected \<le> 0 then vals
      else if int (length vals) = expected then vals
      else if int (length vals) < expected then vals
      else if int (length vals) mod expected = 0 \<and> 1 < int (length vals) div expected
        then chunk_join delimiter (nat (int (length vals) div expected)) vals
      else if 1 < expected \<and> expected < int (length vals)
        then take (nat (expected - 1)) vals @ [py_join delimiter (drop (nat (expected - 1)) vals)]
      else vals)"

definition coalesce_row_values :: "string list \<Rightarrow> int \<Rightarrow> char \<Rightarrow> string list" where
  "coalesce_row_values vals expected delimiter =
     (if expected \<le> 0 then vals
      else if int (length vals) = expected then vals
      else if expected < int (length vals)
        then take (nat (expected - 1)) vals @ [py_join delimiter (drop (nat (expected - 1)) vals)]
      else vals)"

section \<open>Python numbers\<close>

subsection \<open>\<open>str(int)\<close> and \<open>int(str)\<close>\<close>

text \<open>
  Python's \<open>int\<close> is unbounded: it is \<^typ>\<open>int\<close>.  The interpreter's limit on the
  number of digits that \<open>str\<close> and \<open>int\<close> convert (\<open>sys.set_int_max_str_digits\<close>)
  is a setting of the host and is not modelled.
\<close>

definition digit_char :: "nat \<Rightarrow> char" where
  "digit_char n = ''0123456789'' ! n"

definition is_digit :: "char \<Rightarrow> bool" where
  "is_digit c = (48 \<le> (of_char c :: nat) \<and> (of_char c :: nat) \<le> 57)"

definition digit_val :: "char \<Rightarrow> nat" where
  "digit_val c = of_char c - 48"

function str_nat :: "nat \<Rightarrow> string" where
  "str_nat n = (if n < 10 then [digit_char n] else str_nat (n div 10) @ [digit_char (n mod 10)])"
  by pat_completeness auto
termination
  by (relation "measure id") auto

declare str_nat.simps [simp del]

definition py_str_int :: "int \<Rightarrow> string" where
  "py_str_int i = (if i < 0 then CHR ''-'' # str_nat (nat (- i)) else str_nat (nat i))"

text \<open>The value of a digit string, most significant digit first.\<close>

definition digits_val :: "string \<Rightarrow> nat" where
  "digits_val ds = foldl (\<lambda>acc c. 10 * acc + digit_val c) 0 ds"

text \<open>
  \<open>digitpart ::= digit (["_"] digit)*\<close>, the digit groups of Python's numeric
  strings: the digits read (underscores dropped) and the rest of the input.
\<close>

fun digitpart_rest :: "string \<Rightarrow> string \<times> string" where
  "digitpart_rest (c # d # cs) =
     (if is_digit c then (let (ds, r) = digitpart_rest (d # cs) in (c # ds, r))
      else if c = CHR ''_'' \<and> is_digit d then digitpart_rest (d # cs)
      else ([], c # d # cs))"
| "digitpart_rest [c] = (if is_digit c then ([c], []) else ([], [c]))"
| "digitpart_rest [] = ([], [])"

definition digitpart :: "string \<Rightarrow> (string \<times> string) option" where
  "digitpart s =
     (case s of [] \<Rightarrow> None
      | c # cs \<Rightarrow> if is_digit c then Some (digitpart_rest s) else None)"

text \<open>An optional sign: whether it is a minus, and the rest.\<close>

definition opt_sign :: "string \<Rightarrow> bool \<times> string" where
  "opt_sign s =
     (case s of [] \<Rightarrow> (False, [])
      | c # cs \<Rightarrow> if c = CHR ''-'' then (True, cs)
                 else if c = CHR ''+'' then (False, cs) else (False, s))"

text \<open>
  \<open>int(s)\<close> in base ten: surrounding whitespace, an optional sign, one digit part.
  \<open>None\<close> is the \<open>ValueError\<close>.
\<close>

definition py_int :: "string \<Rightarrow> int option" where
  "py_int s =
     (let (neg, r) = opt_sign (py_strip s)
      in case digitpart r of
           Some (ds, []) \<Rightarrow> Some (if neg then - int (digits_val ds) else int (digits_val ds))
         | _ \<Rightarrow> None)"

subsection \<open>Floats\<close>

text \<open>
  A Python \<open>float\<close> is modelled by the decimal numeral that \<open>repr\<close> prints for it:
  a sign, a coefficient without trailing zeros and a power of ten
  (\<open>Finite neg c e\<close> is \<open>\<plusminus> c \<sqdot> 10\<^sup>e\<close>), or an infinity, or NaN.  Rounding to 53 bits,
  overflow and underflow are not modelled: \<open>float(s)\<close> keeps the digits of \<open>s\<close>.
\<close>

datatype pyfloat = Finite bool nat int | Infinite bool | NaN

function strip_zeros :: "nat \<Rightarrow> int \<Rightarrow> nat \<times> int" where
  "strip_zeros c e =
     (if c = 0 then (0, 0)
      else if c mod 10 = 0 then strip_zeros (c div 10) (e + 1)
      else (c, e))"
  by pat_completeness auto
termination
  by (relation "measure fst") auto

declare strip_zeros.simps [simp del]

definition mk_float :: "bool \<Rightarrow> nat \<Rightarrow> int \<Rightarrow> pyfloat" where
  "mk_float neg c e = (let (c', e') = strip_zeros c e in Finite neg c' e')"

definition lower :: "string \<Rightarrow> string" where
  "lower s =
     map (\<lambda>c. if 65 \<le> (of_char c :: nat) \<and> (of_char c :: nat) \<le> 90
              then char_of (of_char c + 32 :: nat) else c) s"

text \<open>
  \<open>exponent ::= ("e" | "E") [sign] digitpart\<close>, then the end of the input.
\<close>

definition float_exponent :: "string \<Rightarrow> int option" where
  "float_exponent s =
     (case s of [] \<Rightarrow> Some 0
      | c # cs \<Rightarrow>
          if c = CHR ''e'' \<or> c = CHR ''E'' then
            (let (neg, r) = opt_sign cs
             in case digitpart r of
                  Some (ds, []) \<Rightarrow> Some (if neg then - int (digits_val ds) else int (digits_val ds))
                | _ \<Rightarrow> None)
          else None)"

text \<open>
  \<open>number ::= [digitpart] "." digitpart | digitpart ["."]\<close>, followed by the
  optional exponent.
\<close>

definition float_number :: "bool \<Rightarrow> string \<Rightarrow> pyfloat option" where
  "float_number neg s =
     (case digitpart s of
        Some (ip, r) \<Rightarrow>
          (case r of
             c # r' \<Rightarrow>
               if c = CHR ''.'' then
                 (case digitpart r' of
                    Some (fp, r'') \<Rightarrow>
                      map_option (\<lambda>x. mk_float neg (digits_val (ip @ fp)) (x - int (length fp)))
                        (float_exponent r'')
                  | None \<Rightarrow> map_option (\<lambda>x. mk_float neg (digits_val ip) x) (float_exponent r'))
               else map_option (\<lambda>x. mk_float neg (digits_val ip) x) (float_exponent r)
           | [] \<Rightarrow> Some (mk_float neg (digits_val ip) 0))
      | None \<Rightarrow>
          (case s of
             c # r' \<Rightarrow>
               if c = CHR ''.'' then
                 (case digitpart r' of
                    Some (fp, r'') \<Rightarrow>
                      map_option (\<lambda>x. mk_float neg (digits_val fp) (x - int (length fp)))
                        (float_exponent r'')
                  | None \<Rightarrow> None)
               else None
           | [] \<Rightarrow> None))"

text \<open>
  \<open>float(s)\<close>: surrounding whitespace, an optional sign, then \<open>inf\<close>, \<open>infinity\<close> or
  \<open>nan\<close> in any case, or a number.  \<open>None\<close> is the \<open>ValueError\<close>.
\<close>

definition py_float :: "string \<Rightarrow> pyfloat option" where
  "py_float s =
     (let (neg, r) = opt_sign (py_strip s)
      in if lower r = ''inf'' \<or> lower r = ''infinity'' then Some (Infinite neg)
         else if lower r = ''nan'' then Some NaN
         else float_number neg r)"

text \<open>\<open>math.isnan\<close>, \<open>math.isinf\<close>, and \<open>x == x\<close> on floats.\<close>

definition isnan :: "pyfloat \<Rightarrow> bool" where
  "isnan f = (f = NaN)"

definition isinf :: "pyfloat \<Rightarrow> bool" where
  "isinf f = (case f of Infinite _ \<Rightarrow> True | _ \<Rightarrow> False)"

definition float_is_zero :: "pyfloat \<Rightarrow> bool" where
  "float_is_zero f = (case f of Finite _ c _ \<Rightarrow> c = 0 | _ \<Rightarrow> False)"

text \<open>
  \<open>str(f)\<close>, that is \<open>repr(f)\<close>: the shortest digits \<open>ds\<close> with the decimal point after
  \<open>decpt\<close> of them; fixed notation when \<open>-4 < decpt \<le> 16\<close>, with \<open>.0\<close> appended when
  no digit follows the point; otherwise exponent notation with a signed exponent
  of at least two digits.
\<close>

definition py_str_float :: "pyfloat \<Rightarrow> string" where
  "py_str_float f =
     (case f of
        NaN \<Rightarrow> ''nan''
      | Infinite neg \<Rightarrow> (if neg then ''-inf'' else ''inf'')
      | Finite neg c e \<Rightarrow>
          (let ds = str_nat c;
               n = int (length ds);
               decpt = n + e;
               sgn = (if neg then ''-'' else '''');
               body =
                 (if - 4 < decpt \<and> decpt \<le> 16 then
                    (if decpt \<le> 0 then ''0.'' @ replicate (nat (- decpt)) (CHR ''0'') @ ds
                     else if n \<le> decpt then ds @ replicate (nat (decpt - n)) (CHR ''0'') @ ''.0''
                     else take (nat decpt) ds @ ''.'' @ drop (nat decpt) ds)
                  else
                    (let x = decpt - 1;
                         xs = str_nat (nat \<bar>x\<bar>)
                     in take 1 ds @ (if 1 < n then ''.'' @ drop 1 ds else '''')
                        @ ''e'' @ (if x < 0 then ''-'' else ''+'')
                        @ (if length xs < 2 then ''0'' @ xs else xs)))
           in sgn @ body))"

section \<open>The JSON data model (types.py)\<close>

text \<open>
  \<open>JsonValue\<close>.  A Python \<open>dict\<close> keeps insertion order and has unique keys: it
  is an association list, written to by \<open>dict_set\<close> (\<open>d[k] = v\<close>), which
  replaces the value of a key already present and appends a new key at the end.
\<close>

datatype json =
    JNull
  | JBool bool
  | JInt int
  | JFloat pyfloat
  | JStr string
  | JArr "json list"
  | JObj "(string \<times> json) list"

definition dict_set :: "(string \<times> 'v) list \<Rightarrow> string \<Rightarrow> 'v \<Rightarrow> (string \<times> 'v) list" where
  "dict_set d k v = AList.update k v d"

definition dict_get :: "(string \<times> 'v) list \<Rightarrow> string \<Rightarrow> 'v option" where
  "dict_get d k = map_of d k"

text \<open>
  Errors.  Every constructor but the last five is a \<open>ValueError\<close> of the source,
  named after its message; \<open>IntValueError\<close> is the \<open>ValueError\<close> of the built-in
  \<open>int\<close>.  \<open>OutOfFuel\<close> is not an error of the program: it marks a run of the model
  that was given too little fuel.
\<close>

datatype error =
    NoContent
  | UnexpectedAfterQuote
  | UnterminatedString
  | InvalidEscapeAtEnd
  | InvalidEscape char
  | MissingKey
  | MissingColon
  | UnterminatedKey
  | ExpectedListItem
  | CountMismatch string nat nat
  | FoundMore string nat
  | IntValueError
  | IndexError
  | KeyError
  | AttributeError
  | ZeroDivisionError
  | OutOfFuel

section \<open>Normalization (normalize.py)\<close>

text \<open>
  The host values \<open>normalize_value\<close> dispatches on.  A \<open>Decimal\<close> is a sign, a
  coefficient and an exponent, or an infinity, or a NaN; a \<open>datetime\<close> is
  represented by the text its \<open>isoformat()\<close> returns; a \<open>set\<close> by its members in
  iteration order; a \<open>dict\<close> by its items in iteration order.  \<open>PyOther\<close> is any
  value of another type (a function, an object, bytes).  Host values are finite
  trees: a container that holds itself, and the interpreter's recursion limit,
  are outside the model.
\<close>

datatype pydecimal = DecFinite bool nat int | DecInfinite bool | DecNaN

datatype pykey =
    KStr string
  | KInt int
  | KBool bool
  | KNone
  | KFloat pyfloat
  | KOther string

datatype pyvalue =
    PyNone
  | PyBool bool
  | PyInt int
  | PyFloat pyfloat
  | PyDecimal pydecimal
  | PyStr string
  | PyDatetime string
  | PySet "pyvalue list"
  | PyDict "(pykey \<times> pyvalue) list"
  | PyList "pyvalue list"
  | PyTuple "pyvalue list"
  | PyOther

text \<open>\<open>str(key)\<close>; \<open>KOther s\<close> is a key of another type whose \<open>str\<close> is \<open>s\<close>.\<close>

definition py_str_key :: "pykey \<Rightarrow> string" where
  "py_str_key k =
     (case k of
        KStr s \<Rightarrow> s
      | KInt i \<Rightarrow> py_str_int i
      | KBool b \<Rightarrow> (if b then ''True'' else ''False'')
      | KNone \<Rightarrow> ''None''
      | KFloat f \<Rightarrow> py_str_float f
      | KOther s \<Rightarrow> s)"

text \<open>\<open>float(d)\<close> for a \<open>Decimal\<close>.\<close>

definition float_of_decimal :: "pydecimal \<Rightarrow> pyfloat" where
  "float_of_decimal d =
     (case d of
        DecFinite neg c e \<Rightarrow> mk_float neg c e
      | DecInfinite neg \<Rightarrow> Infinite neg
      | DecNaN \<Rightarrow> NaN)"

definition decimal_is_nan :: "pydecimal \<Rightarrow> bool" where
  "decimal_is_nan d = (d = DecNaN)"

definition decimal_is_infinite :: "pydecimal \<Rightarrow> bool" where
  "decimal_is_infinite d = (case d of DecInfinite _ \<Rightarrow> True | _ \<Rightarrow> False)"

text \<open>
  \<open>normalize_value\<close>, branch by branch.  The \<open>isinstance(value, (int, float))\<close>
  branch returns every \<open>int\<close> as it is, so the later "BigInt" branch, which tests
  \<open>isinstance(value, int)\<close> again, is never reached; it is the unreachable
  \<open>normalize_bigint\<close> below.
\<close>

definition normalize_bigint :: "int \<Rightarrow> json" where
  "normalize_bigint i =
     (if - (2 ^ 53) \<le> i \<and> i \<le> 2 ^ 53 then JInt i else JStr (py_str_int i))"

fun normalize_value :: "pyvalue \<Rightarrow> json" where
  "normalize_value PyNone = JNull"
| "normalize_value (PyBool b) = JBool b"
| "normalize_value (PyDecimal d) =
     (if decimal_is_nan d \<or> decimal_is_infinite d then JNull
      else JFloat (float_of_decimal d))"
| "normalize_value (PyInt i) = JInt i"
| "normalize_value (PyFloat f) =
     (if isnan f \<or> isinf f then JNull
      else if float_is_zero f \<and> py_str_float f = ''-0.0'' then JInt 0
      else JFloat f)"
| "normalize_value (PyStr s) = JStr s"
| "normalize_value (PyDatetime isotext) = JStr isotext"
| "normalize_value (PySet items) = JArr (map normalize_value items)"
| "normalize_value (PyDict items) =
     JObj (foldl (\<lambda>result kv. dict_set result (py_str_key (fst kv)) (normalize_value (snd kv)))
             [] items)"
| "normalize_value (PyList items) = JArr (map normalize_value items)"
| "normalize_value (PyTuple items) = JArr (map normalize_value items)"
| "normalize_value PyOther = JNull"

text \<open>The type tests of normalize.py.\<close>

definition is_json_primitive :: "json \<Rightarrow> bool" where
  "is_json_primitive v = (case v of JArr _ \<Rightarrow> False | JObj _ \<Rightarrow> False | _ \<Rightarrow> True)"

definition is_json_object :: "json \<Rightarrow> bool" where
  "is_json_object v = (case v of JObj _ \<Rightarrow> True | _ \<Rightarrow> False)"

definition is_json_array :: "json \<Rightarrow> bool" where
  "is_json_array v = (case v of JArr _ \<Rightarrow> True | _ \<Rightarrow> False)"

definition is_array_of_primitives :: "json \<Rightarrow> bool" where
  "is_array_of_primitives v = (case v of JArr xs \<Rightarrow> list_all is_json_primitive xs | _ \<Rightarrow> False)"

definition is_array_of_objects :: "json \<Rightarrow> bool" where
  "is_array_of_objects v =
     (case v of JArr xs \<Rightarrow> xs \<noteq> [] \<and> list_all is_json_object xs | _ \<Rightarrow> False)"

definition is_array_of_arrays :: "json \<Rightarrow> bool" where
  "is_array_of_arrays v =
     (case v of JArr xs \<Rightarrow> xs \<noteq> [] \<and> list_all is_json_array xs | _ \<Rightarrow> False)"

section \<open>Primitive encoding (primitives.py)\<close>

text \<open>
  The first error of a list of results, or all the values: a comprehension whose
  body may raise.
\<close>

fun sequence_res :: "(error + 'a) list \<Rightarrow> error + 'a list" where
  "sequence_res [] = Inr []"
| "sequence_res (Inl e # rs) = Inl e"
| "sequence_res (Inr x # rs) = (case sequence_res rs of Inl e \<Rightarrow> Inl e | Inr xs \<Rightarrow> Inr (x # xs))"

text \<open>\<open>s.replace(c, rep)\<close> for a one-character \<open>c\<close>.\<close>

definition replace_char :: "char \<Rightarrow> string \<Rightarrow> string \<Rightarrow> string" where
  "replace_char c rep s = concat (map (\<lambda>x. if x = c then rep else [x]) s)"

text \<open>\<open>ESCAPE_SEQUENCES\<close>, in the order of the dictionary.\<close>

definition ESCAPE_SEQUENCES :: "(char \<times> string) list" where
  "ESCAPE_SEQUENCES =
     [(BACKSLASH, [BACKSLASH, BACKSLASH]),
      (DOUBLE_QUOTE, [BACKSLASH, DOUBLE_QUOTE]),
      (NEWLINE, [BACKSLASH, CHR ''n'']),
      (CARRIAGE_RETURN, [BACKSLASH, CHR ''r''])]"

definition escape_string :: "string \<Rightarrow> string" where
  "escape_string v = foldl (\<lambda>escaped (c, rep). replace_char c rep escaped) v ESCAPE_SEQUENCES"

text \<open>
  \<open>re.fullmatch(r'-?\d+(?:\.\d+)?(?:e[+-]?\d+)?', value, flags=re.IGNORECASE)\<close>:
  the pieces of the pattern, each returning the rest of the input after a match.
\<close>

definition re_digits1 :: "string \<Rightarrow> string option" where
  "re_digits1 s = (if takeWhile is_digit s = [] then None else Some (dropWhile is_digit s))"

definition re_opt_fraction :: "string \<Rightarrow> string" where
  "re_opt_fraction s =
     (case s of
        c # t \<Rightarrow> (if c = CHR ''.'' then (case re_digits1 t of Some r \<Rightarrow> r | None \<Rightarrow> s) else s)
      | [] \<Rightarrow> s)"

definition re_opt_exponent :: "string \<Rightarrow> string" where
  "re_opt_exponent s =
     (case s of
        c # t \<Rightarrow>
          (if c = CHR ''e'' \<or> c = CHR ''E'' then
             (let t' = (case t of x # u \<Rightarrow> if x = CHR ''+'' \<or> x = CHR ''-'' then u else t | [] \<Rightarrow> t)
              in case re_digits1 t' of Some r \<Rightarrow> r | None \<Rightarrow> s)
           else s)
      | [] \<Rightarrow> s)"

definition re_numeric :: "string \<Rightarrow> bool" where
  "re_numeric s =
     (let s0 = (case s of c # t \<Rightarrow> if c = CHR ''-'' then t else s | [] \<Rightarrow> s)
      in case re_digits1 s0 of
           None \<Rightarrow> False
         | Some r \<Rightarrow> re_opt_exponent (re_opt_fraction r) = [])"

text \<open>\<open>re.fullmatch(r'0\d+', value)\<close>\<close>

definition re_leading_zero :: "string \<Rightarrow> bool" where
  "re_leading_zero s =
     (case s of c # t \<Rightarrow> c = CHR ''0'' \<and> t \<noteq> [] \<and> list_all is_digit t | [] \<Rightarrow> False)"

definition is_numeric_like :: "string \<Rightarrow> bool" where
  "is_numeric_like v = (re_numeric v \<or> re_leading_zero v)"

definition is_safe_unquoted :: "string \<Rightarrow> char \<Rightarrow> bool" where
  "is_safe_unquoted v delimiter =
     (if v = [] then False
      else if v \<noteq> py_strip v then False
      else if v = TRUE_LITERAL \<or> v = FALSE_LITERAL \<or> v = NULL_LITERAL then False
      else if is_numeric_like v then False
      else if COLON \<in> set v \<or> DOUBLE_QUOTE \<in> set v \<or> BACKSLASH \<in> set v then False
      else if OPEN_BRACKET \<in> set v \<or> CLOSE_BRACKET \<in> set v
              \<or> OPEN_BRACE \<in> set v \<or> CLOSE_BRACE \<in> set v then False
      else if NEWLINE \<in> set v \<or> CARRIAGE_RETURN \<in> set v \<or> TAB \<in> set v then False
      else if delimiter \<noteq> PIPE \<and> (delimiter \<in> set v \<or> PIPE \<in> set v) then False
      else if startswith v LIST_ITEM_MARKER then False
      else True)"

definition encode_string_literal :: "string \<Rightarrow> char \<Rightarrow> string" where
  "encode_string_literal v delimiter =
     (if is_safe_unquoted v delimiter then v
      else [DOUBLE_QUOTE] @ escape_string v @ [DOUBLE_QUOTE])"

text \<open>
  \<open>encode_primitive\<close>.  An array or an object has none of the methods the string
  branch calls: the source raises \<open>AttributeError\<close> on it.
\<close>

definition encode_primitive :: "json \<Rightarrow> char \<Rightarrow> error + string" where
  "encode_primitive v delimiter =
     (case v of
        JNull \<Rightarrow> Inr NULL_LITERAL
      | JBool b \<Rightarrow> Inr (if b then TRUE_LITERAL else FALSE_LITERAL)
      | JInt i \<Rightarrow> Inr (py_str_int i)
      | JFloat f \<Rightarrow> Inr (py_str_float f)
      | JStr s \<Rightarrow> Inr (encode_string_literal s delimiter)
      | JArr _ \<Rightarrow> Inl AttributeError
      | JObj _ \<Rightarrow> Inl AttributeError)"

text \<open>
  \<open>re.fullmatch(r'[A-Za-z_][\w.]*', key)\<close>; \<open>\w\<close> is a letter, a digit or a numeric
  character of Unicode, or the underscore.
\<close>

definition is_ascii_letter :: "char \<Rightarrow> bool" where
  "is_ascii_letter c =
     (let n = of_char c :: nat in (65 \<le> n \<and> n \<le> 90) \<or> (97 \<le> n \<and> n \<le> 122))"

definition re_word :: "char \<Rightarrow> bool" where
  "re_word c =
     (let n = of_char c :: nat
      in is_ascii_letter c \<or> is_digit c \<or> c = CHR ''_''
         \<or> n = 170 \<or> n = 178 \<or> n = 179 \<or> n = 181 \<or> n = 185 \<or> n = 186
         \<or> (188 \<le> n \<and> n \<le> 190) \<or> (192 \<le> n \<and> n \<le> 214)
         \<or> (216 \<le> n \<and> n \<le> 246) \<or> 248 \<le> n)"

definition re_bare_key :: "string \<Rightarrow> bool" where
  "re_bare_key k =
     (case k of
        c # t \<Rightarrow> (is_ascii_letter c \<or> c = CHR ''_'') \<and> list_all (\<lambda>x. re_word x \<or> x = CHR ''.'') t
      | [] \<Rightarrow> False)"

definition encode_key :: "string \<Rightarrow> string" where
  "encode_key k =
     (if re_bare_key k then k else [DOUBLE_QUOTE] @ escape_string k @ [DOUBLE_QUOTE])"

definition encode_and_join_primitives :: "json list \<Rightarrow> char \<Rightarrow> error + string" where
  "encode_and_join_primitives vs delimiter =
     (case sequence_res (map (\<lambda>v. encode_primitive v delimiter) vs) of
        Inl e \<Rightarrow> Inl e
      | Inr ts \<Rightarrow> Inr (py_join delimiter ts))"

text \<open>
  \<open>format_header\<close>.  The length marker is \<open>'#'\<close> or \<open>False\<close> in the source; here it
  is the boolean "the marker is \<open>'#'\<close>".
\<close>

definition format_header :: "nat \<Rightarrow> string option \<Rightarrow> string list \<Rightarrow> char \<Rightarrow> bool \<Rightarrow> string" where
  "format_header len key fields delimiter length_marker =
     (case key of None \<Rightarrow> [] | Some k \<Rightarrow> encode_key k)
     @ [OPEN_BRACKET] @ (if length_marker then [HASH] else [])
     @ py_str_int (int len)
     @ (if delimiter \<noteq> DEFAULT_DELIMITER then [delimiter] else [])
     @ [CLOSE_BRACKET]
     @ (if fields \<noteq> [] then [OPEN_BRACE] @ py_join delimiter (map encode_key fields) @ [CLOSE_BRACE]
        else [])
     @ [COLON]"

section \<open>Line writer (writer.py)\<close>

record LineWriter =
  indent_size :: int
  lines :: "string list"

definition new_writer :: "int \<Rightarrow> LineWriter" where
  "new_writer n = \<lparr>indent_size = n, lines = []\<rparr>"

text \<open>\<open>' ' * n\<close>: empty when \<open>n \<le> 0\<close>.\<close>

definition spaces :: "int \<Rightarrow> string" where
  "spaces n = replicate (nat n) SPACE"

definition push :: "LineWriter \<Rightarrow> nat \<Rightarrow> string \<Rightarrow> LineWriter" where
  "push w depth content =
     (let content' = py_rstrip content;
          indent_depth =
            (if 0 < depth \<and> (startswith content' LIST_ITEM_PREFIX \<or> content' = LIST_ITEM_MARKER)
             then depth - 1 else depth);
          ind = spaces (int indent_depth * indent_size w)
      in w\<lparr>lines := lines w @ [ind @ content']\<rparr>)"

definition to_string :: "LineWriter \<Rightarrow> string" where
  "to_string w = py_join NEWLINE (lines w)"

section \<open>Structural encoder (encoders.py)\<close>

record ResolvedEncodeOptions =
  indent :: int
  delimiter :: char
  lengthMarker :: bool

definition encode_inline_array_line ::
  "json list \<Rightarrow> char \<Rightarrow> string option \<Rightarrow> bool \<Rightarrow> error + string" where
  "encode_inline_array_line vs delim prefix length_marker =
     (let header = format_header (length vs) prefix [] delim length_marker
      in if vs = [] then Inr header
         else case encode_and_join_primitives vs delim of
                Inl e \<Rightarrow> Inl e
              | Inr joined \<Rightarrow>
                  Inr (header @ [if delim = TAB then TAB else SPACE] @ joined))"

definition encode_inline_primitive_array ::
  "string option \<Rightarrow> json list \<Rightarrow> LineWriter \<Rightarrow> nat \<Rightarrow> ResolvedEncodeOptions \<Rightarrow> error + LineWriter" where
  "encode_inline_primitive_array prefix vs w depth opts =
     (case encode_inline_array_line vs (delimiter opts) prefix (lengthMarker opts) of
        Inl e \<Rightarrow> Inl e
      | Inr line \<Rightarrow> Inr (push w depth line))"

text \<open>The loop of \<open>encode_array_of_arrays_as_list_items\<close>.\<close>

fun array_items_loop ::
  "json list \<Rightarrow> LineWriter \<Rightarrow> nat \<Rightarrow> ResolvedEncodeOptions \<Rightarrow> error + LineWriter" where
  "array_items_loop [] w depth opts = Inr w"
| "array_items_loop (arr # rest) w depth opts =
     (if is_array_of_primitives arr then
        (case arr of
           JArr xs \<Rightarrow>
             (case encode_inline_array_line xs (delimiter opts) None (lengthMarker opts) of
                Inl e \<Rightarrow> Inl e
              | Inr inline \<Rightarrow>
                  array_items_loop rest (push w (depth + 1) (LIST_ITEM_PREFIX @ inline)) depth opts)
         | _ \<Rightarrow> array_items_loop rest w depth opts)
      else array_items_loop rest w depth opts)"

definition encode_array_of_arrays_as_list_items ::
  "string option \<Rightarrow> json list \<Rightarrow> LineWriter \<Rightarrow> nat \<Rightarrow> ResolvedEncodeOptions \<Rightarrow> error + LineWriter" where
  "encode_array_of_arrays_as_list_items prefix vs w depth opts =
     array_items_loop vs
       (push w depth (format_header (length vs) prefix [] (delimiter opts) (lengthMarker opts)))
       depth opts"

text \<open>
  \<open>is_tabular_array\<close>: the inner loop over the header, then the loop over the rows.
\<close>

definition row_has_primitives :: "(string \<times> json) list \<Rightarrow> string list \<Rightarrow> bool" where
  "row_has_primitives row header =
     list_all (\<lambda>key. case dict_get row key of None \<Rightarrow> False | Some v \<Rightarrow> is_json_primitive v) header"

definition is_tabular_array :: "json list \<Rightarrow> string list \<Rightarrow> bool" where
  "is_tabular_array rows header =
     list_all (\<lambda>row. case row of
                  JObj kvs \<Rightarrow> length (map fst kvs) = length header \<and> row_has_primitives kvs header
                | _ \<Rightarrow> False) rows"

definition extract_tabular_header :: "json list \<Rightarrow> string list option" where
  "extract_tabular_header rows =
     (case rows of
        [] \<Rightarrow> None
      | first_row # _ \<Rightarrow>
          (case first_row of
             JObj kvs \<Rightarrow>
               (let header = map fst kvs
                in if header = [] then None
                   else if is_tabular_array rows header then Some header
                   else None)
           | _ \<Rightarrow> None))"

text \<open>\<open>[row[key] for key in header]\<close>: a missing key raises \<open>KeyError\<close>.\<close>

definition row_values :: "(string \<times> json) list \<Rightarrow> string list \<Rightarrow> error + json list" where
  "row_values row header =
     sequence_res (map (\<lambda>key. case dict_get row key of None \<Rightarrow> Inl KeyError | Some v \<Rightarrow> Inr v) header)"

fun write_tabular_rows ::
  "json list \<Rightarrow> string list \<Rightarrow> LineWriter \<Rightarrow> nat \<Rightarrow> ResolvedEncodeOptions \<Rightarrow> error + LineWriter" where
  "write_tabular_rows [] header w depth opts = Inr w"
| "write_tabular_rows (row # rest) header w depth opts =
     (case row of
        JObj kvs \<Rightarrow>
          (case row_values kvs header of
             Inl e \<Rightarrow> Inl e
           | Inr vs \<Rightarrow>
               (case encode_and_join_primitives vs (delimiter opts) of
                  Inl e \<Rightarrow> Inl e
                | Inr joined \<Rightarrow> write_tabular_rows rest header (push w depth joined) depth opts))
      | _ \<Rightarrow> write_tabular_rows rest header w depth opts)"

definition encode_array_of_objects_as_tabular ::
  "string option \<Rightarrow> json list \<Rightarrow> string list \<Rightarrow> LineWriter \<Rightarrow> nat \<Rightarrow> ResolvedEncodeOptions
     \<Rightarrow> error + LineWriter" where
  "encode_array_of_objects_as_tabular prefix rows header w depth opts =
     write_tabular_rows rows header
       (push w depth (format_header (length rows) prefix header (delimiter opts) (lengthMarker opts)))
       (depth + 1) opts"

text \<open>
  The mutually recursive part.  Each \<open>for\<close> loop of the source that calls back
  into the recursion is a function of its own, over the items still to visit:
  \<open>encode_object\<close> is the loop over \<open>value.items()\<close>, \<open>mixed_items_loop\<close> the loop
  of \<open>encode_mixed_array_as_list_items\<close>, \<open>nested_objects_loop\<close> and
  \<open>nested_items_loop\<close> the two loops over \<open>first_value\<close> in
  \<open>encode_object_as_list_item\<close>, and \<open>extra_keys_loop\<close> its loop over \<open>keys[1:]\<close>.
\<close>

function
  encode_object ::
    "(string \<times> json) list \<Rightarrow> LineWriter \<Rightarrow> nat \<Rightarrow> ResolvedEncodeOptions \<Rightarrow> error + LineWriter"
and encode_key_value_pair ::
    "string \<Rightarrow> json \<Rightarrow> LineWriter \<Rightarrow> nat \<Rightarrow> ResolvedEncodeOptions \<Rightarrow> error + LineWriter"
and encode_array ::
    "string option \<Rightarrow> json list \<Rightarrow> LineWriter \<Rightarrow> nat \<Rightarrow> ResolvedEncodeOptions \<Rightarrow> error + LineWriter"
and encode_mixed_array_as_list_items ::
    "string option \<Rightarrow> json list \<Rightarrow> LineWriter \<Rightarrow> nat \<Rightarrow> ResolvedEncodeOptions \<Rightarrow> error + LineWriter"
and mixed_items_loop ::
    "json list \<Rightarrow> LineWriter \<Rightarrow> nat \<Rightarrow> ResolvedEncodeOptions \<Rightarrow> error + LineWriter"
and encode_object_as_list_item ::
    "(string \<times> json) list \<Rightarrow> LineWriter \<Rightarrow> nat \<Rightarrow> ResolvedEncodeOptions \<Rightarrow> error + LineWriter"
and nested_objects_loop ::
    "json list \<Rightarrow> LineWriter \<Rightarrow> nat \<Rightarrow> ResolvedEncodeOptions \<Rightarrow> error + LineWriter"
and nested_items_loop ::
    "json list \<Rightarrow> LineWriter \<Rightarrow> nat \<Rightarrow> ResolvedEncodeOptions \<Rightarrow> error + LineWriter"
and extra_keys_loop ::
    "(string \<times> json) list \<Rightarrow> LineWriter \<Rightarrow> nat \<Rightarrow> ResolvedEncodeOptions \<Rightarrow> error + LineWriter"
where
  "encode_object [] w depth opts = Inr w"
| "encode_object ((key, member) # rest) w depth opts =
     (case encode_key_value_pair key member w depth opts of
        Inl e \<Rightarrow> Inl e
      | Inr w' \<Rightarrow> encode_object rest w' depth opts)"

| "encode_key_value_pair key v w depth opts =
     (if is_json_primitive v then
        (case encode_primitive v (delimiter opts) of
           Inl e \<Rightarrow> Inl e
         | Inr t \<Rightarrow> Inr (push w depth (encode_key key @ '': '' @ t)))
      else case v of
             JArr xs \<Rightarrow> encode_array (Some key) xs w depth opts
           | JObj kvs \<Rightarrow>
               (if kvs = [] then Inr (push w depth (encode_key key @ '':''))
                else encode_object kvs (push w depth (encode_key key @ '':'')) (depth + 1) opts)
           | _ \<Rightarrow> Inr w)"

| "encode_array key vs w depth opts =
     (if vs = [] then
        Inr (push w depth (format_header 0 key [] (delimiter opts) (lengthMarker opts)))
      else if is_array_of_primitives (JArr vs) then
        encode_inline_primitive_array key vs w depth opts
      else if is_array_of_arrays (JArr vs) \<and> list_all is_array_of_primitives vs then
        encode_array_of_arrays_as_list_items key vs w depth opts
      else if is_array_of_objects (JArr vs) then
        (case extract_tabular_header vs of
           Some header \<Rightarrow> encode_array_of_objects_as_tabular key vs header w depth opts
         | None \<Rightarrow> encode_mixed_array_as_list_items key vs w depth opts)
      else encode_mixed_array_as_list_items key vs w depth opts)"

| "encode_mixed_array_as_list_items prefix vs w depth opts =
     mixed_items_loop vs
       (push w depth (format_header (length vs) prefix [] (delimiter opts) (lengthMarker opts)))
       depth opts"

| "mixed_items_loop [] w depth opts = Inr w"
| "mixed_items_loop (item # rest) w depth opts =
     (case
        (if is_json_primitive item then
           (case encode_primitive item (delimiter opts) of
              Inl e \<Rightarrow> Inl e
            | Inr t \<Rightarrow> Inr (push w (depth + 1) (LIST_ITEM_PREFIX @ t)))
         else case item of
                JArr xs \<Rightarrow>
                  (if is_array_of_primitives item then
                     (case encode_inline_array_line xs (delimiter opts) None (lengthMarker opts) of
                        Inl e \<Rightarrow> Inl e
                      | Inr inline \<Rightarrow> Inr (push w (depth + 1) (LIST_ITEM_PREFIX @ inline)))
                   else encode_array None xs w (depth + 1) opts)
              | JObj kvs \<Rightarrow> encode_object_as_list_item kvs w (depth + 1) opts
              | _ \<Rightarrow> Inr w)
      of Inl e \<Rightarrow> Inl e
       | Inr w' \<Rightarrow> mixed_items_loop rest w' depth opts)"

| "encode_object_as_list_item [] w depth opts = Inr (push w depth LIST_ITEM_MARKER)"
| "encode_object_as_list_item ((first_key, first_value) # extra) w depth opts =
     (case
        (if is_json_primitive first_value then
           (case encode_primitive first_value (delimiter opts) of
              Inl e \<Rightarrow> Inl e
            | Inr t \<Rightarrow> Inr (push w depth (LIST_ITEM_PREFIX @ encode_key first_key @ '': '' @ t)))
         else case first_value of
                JArr xs \<Rightarrow>
                  (if is_array_of_primitives first_value then
                     (case encode_inline_array_line xs (delimiter opts) (Some first_key)
                             (lengthMarker opts) of
                        Inl e \<Rightarrow> Inl e
                      | Inr inline \<Rightarrow> Inr (push w depth (LIST_ITEM_PREFIX @ inline)))
                   else if is_array_of_objects first_value then
                     (case extract_tabular_header xs of
                        Some header \<Rightarrow>
                          write_tabular_rows xs header
                            (push w depth
                               (LIST_ITEM_PREFIX
                                @ format_header (length xs) (Some first_key) header
                                    (delimiter opts) (lengthMarker opts)))
                            (depth + 1) opts
                      | None \<Rightarrow>
                          nested_objects_loop xs
                            (push w depth
                               (LIST_ITEM_PREFIX @ encode_key first_key @ ''[''
                                @ py_str_int (int (length xs)) @ '']:''))
                            depth opts)
                   else
                     nested_items_loop xs
                       (push w depth
                          (LIST_ITEM_PREFIX @ encode_key first_key @ ''[''
                           @ py_str_int (int (length xs)) @ '']:''))
                       depth opts)
              | JObj kvs \<Rightarrow>
                  (if kvs = [] then Inr (push w depth (LIST_ITEM_PREFIX @ encode_key first_key @ '':''))
                   else encode_object kvs
                          (push w depth (LIST_ITEM_PREFIX @ encode_key first_key @ '':''))
                          (depth + 2) opts)
              | _ \<Rightarrow> Inr w)
      of Inl e \<Rightarrow> Inl e
       | Inr w' \<Rightarrow> extra_keys_loop extra w' depth opts)"

| "nested_objects_loop [] w depth opts = Inr w"
| "nested_objects_loop (nested # rest) w depth opts =
     (case
        (case nested of
           JObj kvs \<Rightarrow> encode_object_as_list_item kvs w (depth + 1) opts
         | JArr xs \<Rightarrow>
             (if is_array_of_primitives nested then
                (case encode_inline_array_line xs (delimiter opts) None (lengthMarker opts) of
                   Inl e \<Rightarrow> Inl e
                 | Inr inline \<Rightarrow> Inr (push w (depth + 1) (LIST_ITEM_PREFIX @ inline)))
              else Inr w)
         | _ \<Rightarrow>
             (case encode_primitive nested (delimiter opts) of
                Inl e \<Rightarrow> Inl e
              | Inr t \<Rightarrow> Inr (push w (depth + 1) (LIST_ITEM_PREFIX @ t))))
      of Inl e \<Rightarrow> Inl e
       | Inr w' \<Rightarrow> nested_objects_loop rest w' depth opts)"

| "nested_items_loop [] w depth opts = Inr w"
| "nested_items_loop (nested # rest) w depth opts =
     (case
        (if is_json_primitive nested then
           (case encode_primitive nested (delimiter opts) of
              Inl e \<Rightarrow> Inl e
            | Inr t \<Rightarrow> Inr (push w (depth + 1) (LIST_ITEM_PREFIX @ t)))
         else case nested of
                JArr xs \<Rightarrow>
                  (if is_array_of_primitives nested then
                     (case encode_inline_array_line xs (delimiter opts) None (lengthMarker opts) of
                        Inl e \<Rightarrow> Inl e
                      | Inr inline \<Rightarrow> Inr (push w (depth + 1) (LIST_ITEM_PREFIX @ inline)))
                   else Inr w)
              | JObj kvs \<Rightarrow> encode_object_as_list_item kvs w (depth + 1) opts
              | _ \<Rightarrow> Inr w)
      of Inl e \<Rightarrow> Inl e
       | Inr w' \<Rightarrow> nested_items_loop rest w' depth opts)"

| "extra_keys_loop [] w depth opts = Inr w"
| "extra_keys_loop ((extra_key, v) # rest) w depth opts =
     (case encode_key_value_pair extra_key v w (depth + 1) opts of
        Inl e \<Rightarrow> Inl e
      | Inr w' \<Rightarrow> extra_keys_loop rest w' depth opts)"
  by pat_completeness auto
termination
  apply (relation "measure (\<lambda>x. case x of
      Inl (Inl (Inl (kvs, _))) \<Rightarrow> 4 * size (JObj kvs)
    | Inl (Inl (Inr (_, v, _))) \<Rightarrow> 4 * size v + 3
    | Inl (Inr (Inl (_, vs, _))) \<Rightarrow> 4 * size (JArr vs) + 2
    | Inl (Inr (Inr (_, vs, _))) \<Rightarrow> 4 * size (JArr vs) + 1
    | Inr (Inl (Inl (vs, _))) \<Rightarrow> 4 * size (JArr vs)
    | Inr (Inl (Inr (kvs, _))) \<Rightarrow> 4 * size (JObj kvs) + 1
    | Inr (Inr (Inl (vs, _))) \<Rightarrow> 4 * size (JArr vs)
    | Inr (Inr (Inr (Inl (vs, _)))) \<Rightarrow> 4 * size (JArr vs)
    | Inr (Inr (Inr (Inr (kvs, _)))) \<Rightarrow> 4 * size (JObj kvs))")
  apply simp_all
  done

declare encode_key_value_pair.simps [simp del] encode_array.simps [simp del]
  encode_mixed_array_as_list_items.simps [simp del]

definition encode_value :: "json \<Rightarrow> ResolvedEncodeOptions \<Rightarrow> error + string" where
  "encode_value v opts =
     (if is_json_primitive v then encode_primitive v (delimiter opts)
      else case v of
             JArr xs \<Rightarrow>
               (case encode_array None xs (new_writer (indent opts)) 0 opts of
                  Inl e \<Rightarrow> Inl e
                | Inr w \<Rightarrow> Inr (to_string w))
           | JObj kvs \<Rightarrow>
               (case encode_object kvs (new_writer (indent opts)) 0 opts of
                  Inl e \<Rightarrow> Inl e
                | Inr w \<Rightarrow> Inr (to_string w))
           | _ \<Rightarrow> Inr (to_string (new_writer (indent opts))))"

section \<open>Public encoder (encoder.py)\<close>

text \<open>
  \<open>encode\<close> on options already resolved; \<open>default_encode_options\<close> is what
  \<open>resolve_encode_options\<close> returns when no option is given.
\<close>

definition default_encode_options :: ResolvedEncodeOptions where
  "default_encode_options = \<lparr>indent = 2, delimiter = DEFAULT_DELIMITER, lengthMarker = False\<rparr>"

definition encode :: "pyvalue \<Rightarrow> ResolvedEncodeOptions \<Rightarrow> error + string" where
  "encode input_value opts = encode_value (normalize_value input_value) opts"

section \<open>Parser (parser.py)\<close>

record ArrayHeaderInfo =
  hdr_key :: "string option"
  hdr_length :: nat
  hdr_delimiter :: char
  hdr_fields :: "string list option"
  hasLengthMarker :: bool

text \<open>\<open>unescape_string\<close>: the first invalid escape from the left is the error.\<close>

fun unescape_string :: "string \<Rightarrow> error + string" where
  "unescape_string [] = Inr []"
| "unescape_string [c] = (if c = BACKSLASH then Inl InvalidEscapeAtEnd else Inr [c])"
| "unescape_string (c # nxt # rest) =
     (if c = BACKSLASH then
        (if nxt = CHR ''n'' then map_sum id ((#) NEWLINE) (unescape_string rest)
         else if nxt = CHR ''t'' then map_sum id ((#) TAB) (unescape_string rest)
         else if nxt = CHR ''r'' then map_sum id ((#) CARRIAGE_RETURN) (unescape_string rest)
         else if nxt = BACKSLASH then map_sum id ((#) BACKSLASH) (unescape_string rest)
         else if nxt = DOUBLE_QUOTE then map_sum id ((#) DOUBLE_QUOTE) (unescape_string rest)
         else Inl (InvalidEscape nxt))
      else map_sum id ((#) c) (unescape_string (nxt # rest)))"

text \<open>
  The \<open>while\<close> loop of \<open>parse_string_literal\<close>, over the characters from index
  \<open>i\<close> on, with the content collected so far.
\<close>

fun string_literal_loop :: "string \<Rightarrow> string \<Rightarrow> error + string" where
  "string_literal_loop [] acc = Inl UnterminatedString"
| "string_literal_loop [c] acc =
     (if c = DOUBLE_QUOTE then unescape_string acc else Inl UnterminatedString)"
| "string_literal_loop (c # d # rest) acc =
     (if c = BACKSLASH then string_literal_loop rest (acc @ [c, d])
      else if c = DOUBLE_QUOTE then Inl UnexpectedAfterQuote
      else string_literal_loop (d # rest) (acc @ [c]))"

definition parse_string_literal :: "string \<Rightarrow> error + string" where
  "parse_string_literal token =
     (let trimmed = py_strip token
      in if \<not> startswith trimmed [DOUBLE_QUOTE] then Inr trimmed
         else string_literal_loop (drop 1 trimmed) [])"

text \<open>
  The loop of \<open>parse_delimited_values\<close>, with \<open>values\<close>, \<open>current\<close> and
  \<open>in_quotes\<close>.
\<close>

fun delimited_loop :: "string \<Rightarrow> char \<Rightarrow> string list \<Rightarrow> string \<Rightarrow> bool \<Rightarrow> string list" where
  "delimited_loop [] delim vals current in_quotes =
     (if current \<noteq> [] \<or> vals \<noteq> [] then vals @ [py_strip current] else vals)"
| "delimited_loop [c] delim vals current in_quotes =
     (if c = DOUBLE_QUOTE then delimited_loop [] delim vals (current @ [c]) (\<not> in_quotes)
      else if c = delim \<and> \<not> in_quotes then delimited_loop [] delim (vals @ [py_strip current]) [] in_quotes
      else delimited_loop [] delim vals (current @ [c]) in_quotes)"
| "delimited_loop (c # d # rest) delim vals current in_quotes =
     (if c = BACKSLASH \<and> in_quotes then delimited_loop rest delim vals (current @ [c, d]) in_quotes
      else if c = DOUBLE_QUOTE then delimited_loop (d # rest) delim vals (current @ [c]) (\<not> in_quotes)
      else if c = delim \<and> \<not> in_quotes
        then delimited_loop (d # rest) delim (vals @ [py_strip current]) [] in_quotes
      else delimited_loop (d # rest) delim vals (current @ [c]) in_quotes)"

definition parse_delimited_values :: "string \<Rightarrow> char \<Rightarrow> string list" where
  "parse_delimited_values input_text delim = delimited_loop input_text delim [] [] False"

text \<open>\<open>str.isdigit\<close> on one character: the digits and the superscripts 1, 2, 3.\<close>

definition py_isdigit :: "char \<Rightarrow> bool" where
  "py_isdigit c = (is_digit c \<or> of_char c = (178::nat) \<or> of_char c = (179::nat) \<or> of_char c = (185::nat))"

text \<open>
  \<open>parse_bracket_segment\<close>; \<open>None\<close> is its \<open>ValueError\<close>, which the only caller
  catches.
\<close>

definition parse_bracket_segment :: "string \<Rightarrow> char \<Rightarrow> (nat \<times> char \<times> bool) option" where
  "parse_bracket_segment segment default_delimiter =
     (let has_length_marker = startswith segment [HASH];
          c1 = (if has_length_marker then drop 1 segment else segment);
          delim = (if endswith c1 [TAB] then TAB
                   else if endswith c1 [PIPE] then PIPE else default_delimiter);
          c2 = (if endswith c1 [TAB] \<or> endswith c1 [PIPE] then butlast c1 else c1)
      in if c2 = [] \<or> \<not> list_all py_isdigit c2 then None
         else case py_int c2 of
                None \<Rightarrow> None
              | Some len \<Rightarrow> Some (nat len, delim, has_length_marker))"

definition parse_fields_segment :: "string \<Rightarrow> char \<Rightarrow> error + string list" where
  "parse_fields_segment segment delim =
     sequence_res (map (\<lambda>field. parse_string_literal (py_strip field))
                     (parse_delimited_values segment delim))"

text \<open>
  \<open>parse_array_header_line\<close>: \<open>Inr None\<close> is the result \<open>None\<close>, \<open>Inl\<close> an error
  raised by \<open>parse_fields_segment\<close> or \<open>parse_string_literal\<close>.
\<close>

definition parse_array_header_line ::
  "string \<Rightarrow> char \<Rightarrow> error + (ArrayHeaderInfo \<times> string option) option" where
  "parse_array_header_line content default_delimiter =
     (if startswith (py_lstrip content) [DOUBLE_QUOTE] then Inr None
      else case py_find content OPEN_BRACKET 0 of
        None \<Rightarrow> Inr None
      | Some bracket_start \<Rightarrow>
     (case py_find content CLOSE_BRACKET bracket_start of
        None \<Rightarrow> Inr None
      | Some bracket_end \<Rightarrow>
     (let brace_start = py_find content OPEN_BRACE bracket_end;
          brace_end =
            (case brace_start of
               None \<Rightarrow> bracket_end + 1
             | Some bs \<Rightarrow>
                 (case py_find content COLON bracket_end of
                    None \<Rightarrow> bracket_end + 1
                  | Some colon_after_bracket \<Rightarrow>
                      if bs < colon_after_bracket then
                        (case py_find content CLOSE_BRACE bs of
                           None \<Rightarrow> bracket_end + 1
                         | Some found_brace_end \<Rightarrow> found_brace_end + 1)
                      else bracket_end + 1))
      in case py_find content COLON (max bracket_end brace_end) of
        None \<Rightarrow> Inr None
      | Some colon_index \<Rightarrow>
     (let key_segment = py_strip (take bracket_start content);
          after_colon = py_strip (drop (colon_index + 1) content);
          bracket_content = slice content (bracket_start + 1) bracket_end
      in case parse_bracket_segment bracket_content default_delimiter of
        None \<Rightarrow> Inr None
      | Some (len, delim, has_length_marker) \<Rightarrow>
     (case
        (case brace_start of
           None \<Rightarrow> Inr None
         | Some bs \<Rightarrow>
             if bs < colon_index then
               (case py_find content CLOSE_BRACE bs of
                  None \<Rightarrow> Inr None
                | Some found_brace_end \<Rightarrow>
                    if found_brace_end < colon_index then
                      map_sum id Some
                        (parse_fields_segment (slice content (bs + 1) found_brace_end) delim)
                    else Inr None)
             else Inr None)
      of Inl e \<Rightarrow> Inl e
       | Inr flds \<Rightarrow>
     (case
        (if key_segment = [] then Inr None
         else if startswith key_segment [DOUBLE_QUOTE]
           then map_sum id Some (parse_string_literal key_segment)
         else Inr (Some key_segment))
      of Inl e \<Rightarrow> Inl e
       | Inr key \<Rightarrow>
           Inr (Some (\<lparr>hdr_key = key, hdr_length = len, hdr_delimiter = delim,
                        hdr_fields = flds, hasLengthMarker = has_length_marker\<rparr>,
                      if after_colon = [] then None else Some after_colon))))))))"

definition is_boolean_or_null_literal :: "string \<Rightarrow> bool" where
  "is_boolean_or_null_literal token =
     (token = TRUE_LITERAL \<or> token = FALSE_LITERAL \<or> token = NULL_LITERAL)"

definition is_numeric_literal :: "string \<Rightarrow> bool" where
  "is_numeric_literal token =
     (if token = [] then False
      else if 1 < length token \<and> token ! 0 = CHR ''0'' \<and> token ! 1 \<noteq> CHR ''.'' then False
      else case py_float token of
             None \<Rightarrow> False
           | Some num \<Rightarrow> \<not> isnan num)"

text \<open>
  \<open>parse_primitive_token\<close>.  After \<open>is_numeric_literal\<close> the calls \<open>float(trimmed)\<close>
  and \<open>int(trimmed)\<close> are made again; a \<open>ValueError\<close> of \<open>int\<close> is not caught.
\<close>

definition parse_primitive_token :: "string \<Rightarrow> error + json" where
  "parse_primitive_token token =
     (let trimmed = py_strip token
      in if trimmed = [] then Inr (JStr [])
         else if startswith trimmed [DOUBLE_QUOTE] then map_sum id JStr (parse_string_literal trimmed)
         else if is_boolean_or_null_literal trimmed then
           (if trimmed = TRUE_LITERAL then Inr (JBool True)
            else if trimmed = FALSE_LITERAL then Inr (JBool False)
            else Inr JNull)
         else if is_numeric_literal trimmed then
           (if CHR ''.'' \<in> set trimmed \<or> CHR ''e'' \<in> set trimmed \<or> CHR ''E'' \<in> set trimmed
            then (case py_float trimmed of None \<Rightarrow> Inl IntValueError | Some f \<Rightarrow> Inr (JFloat f))
            else (case py_int trimmed of None \<Rightarrow> Inl IntValueError | Some i \<Rightarrow> Inr (JInt i)))
         else Inr (JStr trimmed))"

definition map_row_values_to_primitives :: "string list \<Rightarrow> error + json list" where
  "map_row_values_to_primitives vals = sequence_res (map parse_primitive_token vals)"

definition parse_unquoted_key :: "string \<Rightarrow> nat \<Rightarrow> error + string \<times> nat" where
  "parse_unquoted_key content start =
     (case py_find content COLON start of
        None \<Rightarrow> Inl MissingColon
      | Some end_index \<Rightarrow> Inr (py_strip (slice content start end_index), end_index + 1))"

text \<open>
  The loop of \<open>parse_quoted_key\<close>: the characters from index \<open>i\<close> on, the index
  \<open>i\<close>, and \<open>key_content\<close>.
\<close>

fun quoted_key_loop :: "string \<Rightarrow> nat \<Rightarrow> string \<Rightarrow> error + string \<times> nat" where
  "quoted_key_loop [] i key_content = Inl UnterminatedKey"
| "quoted_key_loop [c] i key_content =
     (if c = DOUBLE_QUOTE then Inl MissingColon else Inl UnterminatedKey)"
| "quoted_key_loop (c # d # rest) i key_content =
     (if c = BACKSLASH then quoted_key_loop rest (i + 2) (key_content @ [c, d])
      else if c = DOUBLE_QUOTE then
        (if d \<noteq> COLON then Inl MissingColon
         else case unescape_string key_content of
                Inl e \<Rightarrow> Inl e
              | Inr parsed \<Rightarrow> Inr (parsed, i + 2))
      else quoted_key_loop (d # rest) (i + 1) (key_content @ [c]))"

definition parse_quoted_key :: "string \<Rightarrow> nat \<Rightarrow> error + string \<times> nat" where
  "parse_quoted_key content start = quoted_key_loop (drop (start + 1) content) (start + 1) []"

definition parse_key_token :: "string \<Rightarrow> nat \<Rightarrow> error + string \<times> nat" where
  "parse_key_token content start =
     (if length content \<le> start then Inl MissingKey
      else if content ! start = DOUBLE_QUOTE then parse_quoted_key content start
      else parse_unquoted_key content start)"

definition is_array_header_after_hyphen :: "string \<Rightarrow> bool" where
  "is_array_header_after_hyphen content =
     (startswith (py_strip content) [OPEN_BRACKET] \<and> COLON \<in> set (py_strip content))"

definition is_object_first_field_after_hyphen :: "string \<Rightarrow> bool" where
  "is_object_first_field_after_hyphen content = (COLON \<in> set content)"

section \<open>Line scanner (scanner.py)\<close>

record ParsedLine =
  pl_raw :: string
  pl_depth :: int
  pl_indent :: nat
  pl_content :: string

text \<open>
  \<open>to_parsed_lines\<close>.  The floor division \<open>indent // indent_size\<close> raises
  \<open>ZeroDivisionError\<close> when \<open>indent_size\<close> is zero, at the first line that is not
  blank.
\<close>

fun scan_lines :: "string list \<Rightarrow> int \<Rightarrow> error + ParsedLine list" where
  "scan_lines [] indent_sz = Inr []"
| "scan_lines (raw_line # rest) indent_sz =
     (if py_strip raw_line = [] then scan_lines rest indent_sz
      else if indent_sz = 0 then Inl ZeroDivisionError
      else (let ind = length raw_line - length (py_lstrip raw_line)
            in case scan_lines rest indent_sz of
                 Inl e \<Rightarrow> Inl e
               | Inr ls \<Rightarrow>
                   Inr (\<lparr>pl_raw = raw_line, pl_depth = int ind div indent_sz,
                          pl_indent = ind, pl_content = py_lstrip raw_line\<rparr> # ls)))"

definition to_parsed_lines :: "string \<Rightarrow> int \<Rightarrow> error + ParsedLine list" where
  "to_parsed_lines input_text indent_sz = scan_lines (py_split NEWLINE input_text) indent_sz"

text \<open>
  The \<open>LineCursor\<close> is the list of lines \<open>ls\<close>, which never changes, and the index
  \<open>i\<close>, which the decoding functions take and return.  \<open>peek\<close> is \<open>None\<close> at the
  end; \<open>advance\<close> is \<open>peek\<close> followed by \<open>i + 1\<close>.
\<close>

definition peek :: "ParsedLine list \<Rightarrow> nat \<Rightarrow> ParsedLine option" where
  "peek ls i = (if length ls \<le> i then None else Some (ls ! i))"

section \<open>Structural decoder (decoders.py)\<close>

record ResolvedDecodeOptions =
  dec_indent :: int
  strict :: bool

definition assert_expected_count ::
  "nat \<Rightarrow> nat \<Rightarrow> string \<Rightarrow> ResolvedDecodeOptions \<Rightarrow> error + unit" where
  "assert_expected_count actual expected label opts =
     (if strict opts \<and> actual \<noteq> expected then Inl (CountMismatch label expected actual)
      else Inr ())"

text \<open>The loop of \<open>is_key_value_line\<close> on a line that starts with a quote.\<close>

fun quoted_key_value_loop :: "string \<Rightarrow> bool" where
  "quoted_key_value_loop [] = False"
| "quoted_key_value_loop [c] = False"
| "quoted_key_value_loop (c # d # rest) =
     (if c = BACKSLASH then quoted_key_value_loop rest
      else if c = DOUBLE_QUOTE then d = COLON
      else quoted_key_value_loop (d # rest))"

definition is_key_value_line :: "ParsedLine \<Rightarrow> bool" where
  "is_key_value_line line =
     (if startswith (pl_content line) [DOUBLE_QUOTE]
      then quoted_key_value_loop (drop 1 (pl_content line))
      else COLON \<in> set (pl_content line))"

definition is_root_array_header_line :: "ParsedLine \<Rightarrow> bool" where
  "is_root_array_header_line line = is_array_header_after_hyphen (pl_content line)"

definition decode_inline_primitive_array ::
  "ArrayHeaderInfo \<Rightarrow> string \<Rightarrow> ResolvedDecodeOptions \<Rightarrow> error + json list" where
  "decode_inline_primitive_array header inline_values opts =
     (let vals = parse_delimited_values inline_values (hdr_delimiter header);
          vals' = coalesce_inline_values vals (int (hdr_length header)) (hdr_delimiter header)
      in case map_row_values_to_primitives vals' of
           Inl e \<Rightarrow> Inl e
         | Inr primitives \<Rightarrow>
             (case assert_expected_count (length primitives) (hdr_length header)
                     ''inline array items'' opts of
                Inl e \<Rightarrow> Inl e
              | Inr _ \<Rightarrow> Inr primitives))"

text \<open>
  \<open>for idx, field in enumerate(header.fields or []): obj[field] = primitives[idx]\<close>:
  an index past the primitives raises \<open>IndexError\<close>.
\<close>

fun build_row :: "string list \<Rightarrow> json list \<Rightarrow> (string \<times> json) list \<Rightarrow> error + (string \<times> json) list" where
  "build_row [] primitives obj = Inr obj"
| "build_row (field # rest) [] obj = Inl IndexError"
| "build_row (field # rest) (p # ps) obj = build_row rest ps (dict_set obj field p)"

definition header_fields :: "ArrayHeaderInfo \<Rightarrow> string list" where
  "header_fields header = (case hdr_fields header of None \<Rightarrow> [] | Some fs \<Rightarrow> fs)"

text \<open>One row of \<open>decode_tabular_array\<close>: the body of its loop after \<open>advance\<close>.\<close>

definition decode_tabular_row ::
  "ArrayHeaderInfo \<Rightarrow> ParsedLine \<Rightarrow> ResolvedDecodeOptions \<Rightarrow> error + json" where
  "decode_tabular_row header line opts =
     (let vals = parse_delimited_values (pl_content line) (hdr_delimiter header);
          vals' = coalesce_row_values vals (int (length (header_fields header))) (hdr_delimiter header)
      in case assert_expected_count (length vals') (length (header_fields header))
                ''tabular row values'' opts of
           Inl e \<Rightarrow> Inl e
         | Inr _ \<Rightarrow>
             (case map_row_values_to_primitives vals' of
                Inl e \<Rightarrow> Inl e
              | Inr primitives \<Rightarrow>
                  (case build_row (header_fields header) primitives [] of
                     Inl e \<Rightarrow> Inl e
                   | Inr obj \<Rightarrow> Inr (JObj obj))))"

function tabular_loop ::
  "ArrayHeaderInfo \<Rightarrow> ParsedLine list \<Rightarrow> nat \<Rightarrow> int \<Rightarrow> ResolvedDecodeOptions \<Rightarrow> json list
     \<Rightarrow> error + json list \<times> nat" where
  "tabular_loop header ls i row_depth opts objects =
     (if length ls \<le> i \<or> hdr_length header \<le> length objects then Inr (objects, i)
      else if pl_depth (ls ! i) < row_depth then Inr (objects, i)
      else if pl_depth (ls ! i) = row_depth then
        (case decode_tabular_row header (ls ! i) opts of
           Inl e \<Rightarrow> Inl e
         | Inr obj \<Rightarrow> tabular_loop header ls (i + 1) row_depth opts (objects @ [obj]))
      else Inr (objects, i))"
  by pat_completeness auto
termination
  by (relation "measure (\<lambda>(header, ls, i, row_depth, opts, objects). length ls - i)") auto

declare tabular_loop.simps [simp del]

text \<open>\<open>s.index(c)\<close> where \<open>c\<close> occurs in \<open>s\<close>.\<close>

definition py_index :: "string \<Rightarrow> char \<Rightarrow> nat" where
  "py_index s c = length (takeWhile (\<lambda>x. x \<noteq> c) s)"

text \<open>The checks of \<open>decode_tabular_array\<close> after its loop.\<close>

definition tabular_finish ::
  "ArrayHeaderInfo \<Rightarrow> ParsedLine list \<Rightarrow> nat \<Rightarrow> int \<Rightarrow> ResolvedDecodeOptions \<Rightarrow> json list
     \<Rightarrow> error + json list \<times> nat" where
  "tabular_finish header ls i row_depth opts objects =
     (case assert_expected_count (length objects) (hdr_length header) ''tabular rows'' opts of
        Inl e \<Rightarrow> Inl e
      | Inr _ \<Rightarrow>
          (case peek ls i of
             None \<Rightarrow> Inr (objects, i)
           | Some next_line \<Rightarrow>
               if strict opts \<and> pl_depth next_line = row_depth
                  \<and> \<not> startswith (pl_content next_line) LIST_ITEM_PREFIX then
                 (if COLON \<notin> set (pl_content next_line)
                    then Inl (FoundMore ''tabular rows'' (hdr_length header))
                  else if hdr_delimiter header \<in> set (pl_content next_line)
                          \<and> py_index (pl_content next_line) (hdr_delimiter header)
                              < py_index (pl_content next_line) COLON
                    then Inl (FoundMore ''tabular rows'' (hdr_length header))
                  else Inr (objects, i))
               else Inr (objects, i)))"

definition decode_tabular_array ::
  "ArrayHeaderInfo \<Rightarrow> ParsedLine list \<Rightarrow> nat \<Rightarrow> int \<Rightarrow> ResolvedDecodeOptions
     \<Rightarrow> error + json list \<times> nat" where
  "decode_tabular_array header ls i base_depth opts =
     (case tabular_loop header ls i (base_depth + 1) opts [] of
        Inl e \<Rightarrow> Inl e
      | Inr (objects, i') \<Rightarrow> tabular_finish header ls i' (base_depth + 1) opts objects)"

text \<open>
  \<open>candidate_depths\<close> of \<open>decode_list_array\<close> is \<open>{item_depth}\<close>, with
  \<open>item_depth - 1\<close> added when \<open>item_depth > 0\<close>; \<open>min_depth\<close> is its minimum.
\<close>

definition candidate_depths :: "int \<Rightarrow> int list" where
  "candidate_depths item_depth =
     (if 0 < item_depth then [item_depth, item_depth - 1] else [item_depth])"

definition min_depth :: "int \<Rightarrow> int" where
  "min_depth item_depth = (if 0 < item_depth then item_depth - 1 else item_depth)"

text \<open>The checks of \<open>decode_list_array\<close> after its loop.\<close>

definition list_finish ::
  "ArrayHeaderInfo \<Rightarrow> ParsedLine list \<Rightarrow> nat \<Rightarrow> int \<Rightarrow> ResolvedDecodeOptions \<Rightarrow> json list
     \<Rightarrow> error + json \<times> nat" where
  "list_finish header ls i item_depth opts items =
     (case assert_expected_count (length items) (hdr_length header) ''list array items'' opts of
        Inl e \<Rightarrow> Inl e
      | Inr _ \<Rightarrow>
          (case peek ls i of
             None \<Rightarrow> Inr (JArr items, i)
           | Some next_line \<Rightarrow>
               if strict opts \<and> pl_depth next_line \<in> set (candidate_depths item_depth)
                  \<and> (startswith (pl_content next_line) LIST_ITEM_PREFIX
                       \<or> pl_content next_line = LIST_ITEM_MARKER)
               then Inl (FoundMore ''list array items'' (hdr_length header))
               else Inr (JArr items, i)))"

text \<open>Python's truth value of \<open>header.key\<close> and of \<open>header.fields\<close>.\<close>

definition key_truthy :: "string option \<Rightarrow> bool" where
  "key_truthy k = (case k of None \<Rightarrow> False | Some s \<Rightarrow> s \<noteq> [])"

definition fields_truthy :: "string list option \<Rightarrow> bool" where
  "fields_truthy fs = (case fs of None \<Rightarrow> False | Some xs \<Rightarrow> xs \<noteq> [])"

text \<open>
  The recursive descent.  The functions of the source call each other through
  the cursor.  Each is first written with the functions it calls as parameters,
  named as in the source; \<open>decoder\<close> then ties them together by recursion on a
  fuel that every call decrements, and \<open>decode\<close> below supplies enough of it.
  Each function returns its value and the index the cursor has reached.
  \<open>decode_object_loop\<close> is the loop of \<open>decode_object\<close> (the object so far is
  \<open>obj\<close>), \<open>list_loop\<close> the loop of \<open>decode_list_array\<close>, and
  \<open>list_item_object_loop\<close> the loop of \<open>decode_object_from_list_item\<close>.
\<close>

type_synonym object_loop_fn =
  "ParsedLine list \<Rightarrow> nat \<Rightarrow> int \<Rightarrow> ResolvedDecodeOptions \<Rightarrow> (string \<times> json) list
     \<Rightarrow> error + (string \<times> json) list \<times> nat"

type_synonym key_value_pair_fn =
  "ParsedLine \<Rightarrow> ParsedLine list \<Rightarrow> nat \<Rightarrow> int \<Rightarrow> ResolvedDecodeOptions
     \<Rightarrow> error + (string \<times> json) \<times> nat"

type_synonym key_value_fn =
  "string \<Rightarrow> ParsedLine list \<Rightarrow> nat \<Rightarrow> int \<Rightarrow> ResolvedDecodeOptions
     \<Rightarrow> error + (string \<times> json \<times> int) \<times> nat"

type_synonym array_from_header_fn =
  "ArrayHeaderInfo \<Rightarrow> string option \<Rightarrow> ParsedLine list \<Rightarrow> nat \<Rightarrow> int
     \<Rightarrow> ResolvedDecodeOptions \<Rightarrow> error + json \<times> nat"

type_synonym list_loop_fn =
  "ArrayHeaderInfo \<Rightarrow> ParsedLine list \<Rightarrow> nat \<Rightarrow> int \<Rightarrow> ResolvedDecodeOptions
     \<Rightarrow> json list \<Rightarrow> error + json \<times> nat"

type_synonym list_item_fn =
  "ParsedLine list \<Rightarrow> nat \<Rightarrow> int \<Rightarrow> char \<Rightarrow> ResolvedDecodeOptions \<Rightarrow> error + json \<times> nat"

type_synonym object_from_list_item_fn =
  "ParsedLine \<Rightarrow> ParsedLine list \<Rightarrow> nat \<Rightarrow> int \<Rightarrow> ResolvedDecodeOptions
     \<Rightarrow> error + json \<times> nat"

definition decode_object_loop_body ::
  "object_loop_fn \<Rightarrow> key_value_pair_fn \<Rightarrow> object_loop_fn" where
  "decode_object_loop_body decode_object_loop' decode_key_value_pair' ls i base_depth opts obj =
     (case peek ls i of
        None \<Rightarrow> Inr (obj, i)
      | Some line \<Rightarrow>
          if pl_depth line < base_depth then Inr (obj, i)
          else if pl_depth line = base_depth then
            (case decode_key_value_pair' line ls i base_depth opts of
               Inl e \<Rightarrow> Inl e
             | Inr ((key, v), i') \<Rightarrow>
                 decode_object_loop' ls i' base_depth opts (dict_set obj key v))
          else Inr (obj, i))"

definition decode_key_value_pair_body :: "key_value_fn \<Rightarrow> key_value_pair_fn" where
  "decode_key_value_pair_body decode_key_value' line ls i base_depth opts =
     (case decode_key_value' (pl_content line) ls (i + 1) base_depth opts of
        Inl e \<Rightarrow> Inl e
      | Inr ((key, v, _), i') \<Rightarrow> Inr ((key, v), i'))"

definition decode_key_value_body ::
  "array_from_header_fn \<Rightarrow> object_loop_fn \<Rightarrow> key_value_fn" where
  "decode_key_value_body decode_array_from_header' decode_object_loop' content ls i base_depth opts =
     (case parse_array_header_line content DEFAULT_DELIMITER of
        Inl e \<Rightarrow> Inl e
      | Inr array_header \<Rightarrow>
          (case (case array_header of
                   None \<Rightarrow> None
                 | Some (header, inline_values) \<Rightarrow>
                     if key_truthy (hdr_key header) then Some (header, inline_values) else None) of
             Some (header, inline_values) \<Rightarrow>
               (case decode_array_from_header' header inline_values ls i base_depth opts of
                  Inl e \<Rightarrow> Inl e
                | Inr (v, i') \<Rightarrow> Inr ((the (hdr_key header), v, base_depth + 1), i'))
           | None \<Rightarrow>
               (case parse_key_token content 0 of
                  Inl e \<Rightarrow> Inl e
                | Inr (key, end_index) \<Rightarrow>
                    if py_strip (drop end_index content) = [] then
                      (case peek ls i of
                         None \<Rightarrow> Inr ((key, JObj [], base_depth + 1), i)
                       | Some next_line \<Rightarrow>
                           if base_depth < pl_depth next_line then
                             (case decode_object_loop' ls i (base_depth + 1) opts [] of
                                Inl e \<Rightarrow> Inl e
                              | Inr (nested, i') \<Rightarrow> Inr ((key, JObj nested, base_depth + 1), i'))
                           else Inr ((key, JObj [], base_depth + 1), i))
                    else
                      (case parse_primitive_token (py_strip (drop end_index content)) of
                         Inl e \<Rightarrow> Inl e
                       | Inr v \<Rightarrow> Inr ((key, v, base_depth + 1), i)))))"

definition decode_array_from_header_body :: "list_loop_fn \<Rightarrow> array_from_header_fn" where
  "decode_array_from_header_body list_loop' header inline_values ls i base_depth opts =
     (if inline_values \<noteq> None \<and> py_strip (the inline_values) \<noteq> [] then
        (case decode_inline_primitive_array header (the inline_values) opts of
           Inl e \<Rightarrow> Inl e
         | Inr primitives \<Rightarrow> Inr (JArr primitives, i))
      else if fields_truthy (hdr_fields header) then
        (case decode_tabular_array header ls i base_depth opts of
           Inl e \<Rightarrow> Inl e
         | Inr (objects, i') \<Rightarrow> Inr (JArr objects, i'))
      else list_loop' header ls i (base_depth + 1) opts [])"

definition list_loop_body ::
  "list_loop_fn \<Rightarrow> list_item_fn \<Rightarrow> array_from_header_fn \<Rightarrow> list_loop_fn" where
  "list_loop_body list_loop' decode_list_item' decode_array_from_header'
       header ls i item_depth opts items =
     (if length ls \<le> i \<or> hdr_length header \<le> length items
        then list_finish header ls i item_depth opts items
      else if pl_depth (ls ! i) < min_depth item_depth
        then list_finish header ls i item_depth opts items
      else if pl_depth (ls ! i) \<in> set (candidate_depths item_depth) then
        (if pl_content (ls ! i) = LIST_ITEM_MARKER
           then list_loop' header ls (i + 1) item_depth opts (items @ [JObj []])
         else if startswith (pl_content (ls ! i)) LIST_ITEM_PREFIX then
           (case decode_list_item' ls i item_depth (hdr_delimiter header) opts of
              Inl e \<Rightarrow> Inl e
            | Inr (item, i') \<Rightarrow> list_loop' header ls i' item_depth opts (items @ [item]))
         else
           (case parse_array_header_line (pl_content (ls ! i)) (hdr_delimiter header) of
              Inl e \<Rightarrow> Inl e
            | Inr None \<Rightarrow> list_finish header ls i item_depth opts items
            | Inr (Some (nested_header, inline_values)) \<Rightarrow>
                (case decode_array_from_header' nested_header inline_values ls (i + 1)
                        item_depth opts of
                   Inl e \<Rightarrow> Inl e
                 | Inr (nested, i') \<Rightarrow>
                     list_loop' header ls i' item_depth opts (items @ [nested]))))
      else list_finish header ls i item_depth opts items)"

definition decode_list_item_body ::
  "array_from_header_fn \<Rightarrow> object_from_list_item_fn \<Rightarrow> list_item_fn" where
  "decode_list_item_body decode_array_from_header' decode_object_from_list_item'
       ls i base_depth active_delimiter opts =
     (case peek ls i of
        None \<Rightarrow> Inl ExpectedListItem
      | Some line \<Rightarrow>
          if pl_content line = LIST_ITEM_MARKER then Inr (JObj [], i + 1)
          else if py_strip (drop (length LIST_ITEM_PREFIX) (pl_content line)) = []
            then Inr (JObj [], i + 1)
          else
            (case (if is_array_header_after_hyphen (drop (length LIST_ITEM_PREFIX) (pl_content line))
                   then parse_array_header_line (drop (length LIST_ITEM_PREFIX) (pl_content line))
                          active_delimiter
                   else Inr None) of
               Inl e \<Rightarrow> Inl e
             | Inr (Some (header, inline_values)) \<Rightarrow>
                 decode_array_from_header' header inline_values ls (i + 1) base_depth opts
             | Inr None \<Rightarrow>
                 if is_object_first_field_after_hyphen
                      (drop (length LIST_ITEM_PREFIX) (pl_content line))
                 then decode_object_from_list_item' line ls (i + 1) base_depth opts
                 else
                   (case parse_primitive_token (drop (length LIST_ITEM_PREFIX) (pl_content line)) of
                      Inl e \<Rightarrow> Inl e
                    | Inr v \<Rightarrow> Inr (v, i + 1))))"

definition decode_object_from_list_item_body ::
  "key_value_fn \<Rightarrow> object_loop_fn \<Rightarrow> object_from_list_item_fn" where
  "decode_object_from_list_item_body decode_key_value' list_item_object_loop'
       first_line ls i base_depth opts =
     (case decode_key_value' (drop (length LIST_ITEM_PREFIX) (pl_content first_line))
             ls i base_depth opts of
        Inl e \<Rightarrow> Inl e
      | Inr ((key, v, follow_depth), i') \<Rightarrow>
          (case list_item_object_loop' ls i' follow_depth opts [(key, v)] of
             Inl e \<Rightarrow> Inl e
           | Inr (obj, i'') \<Rightarrow> Inr (JObj obj, i'')))"

definition list_item_object_loop_body ::
  "object_loop_fn \<Rightarrow> key_value_pair_fn \<Rightarrow> object_loop_fn" where
  "list_item_object_loop_body list_item_object_loop' decode_key_value_pair'
       ls i follow_depth opts obj =
     (case peek ls i of
        None \<Rightarrow> Inr (obj, i)
      | Some line \<Rightarrow>
          if pl_depth line < follow_depth then Inr (obj, i)
          else if pl_depth line = follow_depth
                  \<and> \<not> startswith (pl_content line) LIST_ITEM_PREFIX then
            (case decode_key_value_pair' line ls i follow_depth opts of
               Inl e \<Rightarrow> Inl e
             | Inr ((k, v), i') \<Rightarrow>
                 list_item_object_loop' ls i' follow_depth opts (dict_set obj k v))
          else Inr (obj, i))"

record decoder_fns =
  object_loop_of :: object_loop_fn
  key_value_pair_of :: key_value_pair_fn
  key_value_of :: key_value_fn
  array_from_header_of :: array_from_header_fn
  list_loop_of :: list_loop_fn
  list_item_of :: list_item_fn
  object_from_list_item_of :: object_from_list_item_fn
  list_item_object_loop_of :: object_loop_fn

primrec decoder :: "nat \<Rightarrow> decoder_fns" where
  "decoder 0 =
     \<lparr>object_loop_of = (\<lambda>ls i base_depth opts obj. Inl OutOfFuel),
      key_value_pair_of = (\<lambda>line ls i base_depth opts. Inl OutOfFuel),
      key_value_of = (\<lambda>content ls i base_depth opts. Inl OutOfFuel),
      array_from_header_of = (\<lambda>header inline_values ls i base_depth opts. Inl OutOfFuel),
      list_loop_of = (\<lambda>header ls i item_depth opts items. Inl OutOfFuel),
      list_item_of = (\<lambda>ls i base_depth active_delimiter opts. Inl OutOfFuel),
      object_from_list_item_of = (\<lambda>first_line ls i base_depth opts. Inl OutOfFuel),
      list_item_object_loop_of = (\<lambda>ls i follow_depth opts obj. Inl OutOfFuel)\<rparr>"
| "decoder (Suc n) =
     \<lparr>object_loop_of =
        decode_object_loop_body (object_loop_of (decoder n)) (key_value_pair_of (decoder n)),
      key_value_pair_of = decode_key_value_pair_body (key_value_of (decoder n)),
      key_value_of =
        decode_key_value_body (array_from_header_of (decoder n)) (object_loop_of (decoder n)),
      array_from_header_of = decode_array_from_header_body (list_loop_of (decoder n)),
      list_loop_of =
        list_loop_body (list_loop_of (decoder n)) (list_item_of (decoder n))
          (array_from_header_of (decoder n)),
      list_item_of =
        decode_list_item_body (array_from_header_of (decoder n))
          (object_from_list_item_of (decoder n)),
      object_from_list_item_of =
        decode_object_from_list_item_body (key_value_of (decoder n))
          (list_item_object_loop_of (decoder n)),
      list_item_object_loop_of =
        list_item_object_loop_body (list_item_object_loop_of (decoder n))
          (key_value_pair_of (decoder n))\<rparr>"

definition decode_object_loop :: "nat \<Rightarrow> object_loop_fn" where
  "decode_object_loop n = object_loop_of (decoder n)"

definition decode_key_value_pair :: "nat \<Rightarrow> key_value_pair_fn" where
  "decode_key_value_pair n = key_value_pair_of (decoder n)"

definition decode_key_value :: "nat \<Rightarrow> key_value_fn" where
  "decode_key_value n = key_value_of (decoder n)"

definition decode_array_from_header :: "nat \<Rightarrow> array_from_header_fn" where
  "decode_array_from_header n = array_from_header_of (decoder n)"

definition list_loop :: "nat \<Rightarrow> list_loop_fn" where
  "list_loop n = list_loop_of (decoder n)"

definition decode_list_item :: "nat \<Rightarrow> list_item_fn" where
  "decode_list_item n = list_item_of (decoder n)"

definition decode_object_from_list_item :: "nat \<Rightarrow> object_from_list_item_fn" where
  "decode_object_from_list_item n = object_from_list_item_of (decoder n)"

definition list_item_object_loop :: "nat \<Rightarrow> object_loop_fn" where
  "list_item_object_loop n = list_item_object_loop_of (decoder n)"

text \<open>
  \<open>decode_object\<close> and \<open>decode_list_array\<close> start their loops with an empty
  result.
\<close>

definition decode_object ::
  "nat \<Rightarrow> ParsedLine list \<Rightarrow> nat \<Rightarrow> int \<Rightarrow> ResolvedDecodeOptions
     \<Rightarrow> error + (string \<times> json) list \<times> nat" where
  "decode_object n ls i base_depth opts = decode_object_loop n ls i base_depth opts []"

definition decode_list_array ::
  "nat \<Rightarrow> ArrayHeaderInfo \<Rightarrow> ParsedLine list \<Rightarrow> nat \<Rightarrow> int \<Rightarrow> ResolvedDecodeOptions
     \<Rightarrow> error + json \<times> nat" where
  "decode_list_array n header ls i base_depth opts =
     list_loop n header ls i (base_depth + 1) opts []"

text \<open>
  The fuel \<open>decode_value_from_lines\<close> starts with: every call of the recursion
  either consumes a line or is one of a few calls between two lines.
\<close>

definition fuel_for :: "ParsedLine list \<Rightarrow> nat" where
  "fuel_for ls = 8 * length ls + 8"

definition decode_value_from_lines ::
  "ParsedLine list \<Rightarrow> ResolvedDecodeOptions \<Rightarrow> error + json" where
  "decode_value_from_lines ls opts =
     (case peek ls 0 of
        None \<Rightarrow> Inl NoContent
      | Some first \<Rightarrow>
          (case (if is_root_array_header_line first
                 then parse_array_header_line (pl_content first) DEFAULT_DELIMITER
                 else Inr None) of
             Inl e \<Rightarrow> Inl e
           | Inr (Some (header, inline_values)) \<Rightarrow>
               map_sum id fst (decode_array_from_header (fuel_for ls) header inline_values ls 1 0 opts)
           | Inr None \<Rightarrow>
               if length ls = 1 \<and> \<not> is_key_value_line first
               then parse_primitive_token (py_strip (pl_content first))
               else map_sum id (\<lambda>r. JObj (fst r)) (decode_object (fuel_for ls) ls 0 0 opts)))"

section \<open>Public decoder (decoder.py)\<close>

text \<open>
  \<open>decode\<close> on options already resolved; \<open>default_decode_options\<close> is what
  \<open>resolve_decode_options\<close> returns when no option is given.
\<close>

definition default_decode_options :: ResolvedDecodeOptions where
  "default_decode_options = \<lparr>dec_indent = 2, strict = True\<rparr>"

definition decode :: "string \<Rightarrow> ResolvedDecodeOptions \<Rightarrow> error + json" where
  "decode input_text opts =
     (if input_text = [] \<or> py_strip input_text = [] then Inr (JObj [])
      else case to_parsed_lines input_text (dec_indent opts) of
             Inl e \<Rightarrow> Inl e
           | Inr ls \<Rightarrow>
               if length ls = 0 then Inr (JObj [])
               else decode_value_from_lines ls opts)"

section \<open>Specification devices\<close>

text \<open>
  The bindings that the loop of \<open>decode_object\<close> reads, one per line at
  \<open>base_depth\<close>, in the order of the lines: the loop itself, with the list of
  the pairs in place of the dictionary.
\<close>

primrec object_bindings ::
  "nat \<Rightarrow> ParsedLine list \<Rightarrow> nat \<Rightarrow> int \<Rightarrow> ResolvedDecodeOptions
     \<Rightarrow> error + (string \<times> json) list \<times> nat" where
  "object_bindings 0 ls i base_depth opts = Inl OutOfFuel"
| "object_bindings (Suc n) ls i base_depth opts =
     (case peek ls i of
        None \<Rightarrow> Inr ([], i)
      | Some line \<Rightarrow>
          if pl_depth line < base_depth then Inr ([], i)
          else if pl_depth line = base_depth then
            (case decode_key_value_pair n line ls i base_depth opts of
               Inl e \<Rightarrow> Inl e
             | Inr (kv, i') \<Rightarrow>
                 (case object_bindings n ls i' base_depth opts of
                    Inl e \<Rightarrow> Inl e
                  | Inr (kvs, i'') \<Rightarrow> Inr (kv # kvs, i'')))
          else Inr ([], i))"

text \<open>\<open>obj[key] = value\<close> for each binding in turn.\<close>

definition dict_of_bindings :: "(string \<times> json) list \<Rightarrow> (string \<times> json) list \<Rightarrow> (string \<times> json) list" where
  "dict_of_bindings obj kvs = foldl (\<lambda>d kv. dict_set d (fst kv) (snd kv)) obj kvs"

text \<open>
  Tabular eligibility in the words of the specification: every element is a
  non-empty object, all elements have the key set of the first, and every
  value of every element is a primitive.
\<close>

definition object_keys :: "json \<Rightarrow> string list" where
  "object_keys v = (case v of JObj kvs \<Rightarrow> map fst kvs | _ \<Rightarrow> [])"

definition tabular_eligible :: "json list \<Rightarrow> bool" where
  "tabular_eligible rows =
     list_all (\<lambda>row. case row of
                  JObj kvs \<Rightarrow>
                    kvs \<noteq> [] \<and> set (map fst kvs) = set (object_keys (hd rows))
                    \<and> list_all (\<lambda>kv. is_json_primitive (snd kv)) kvs
                | _ \<Rightarrow> False) rows"

text \<open>
  The count-mismatch failures: a declared length that differs from the number of
  items read, and items found beyond the declared length.
\<close>

definition count_error :: "error \<Rightarrow> bool" where
  "count_error e = (case e of CountMismatch _ _ _ \<Rightarrow> True | FoundMore _ _ \<Rightarrow> True | _ \<Rightarrow> False)"

text \<open>
  A strict result \<open>r1\<close> and a non-strict result \<open>r2\<close> agree when \<open>r1\<close> is a
  count-mismatch failure or the two are the same.
\<close>

definition agree :: "error + 'a \<Rightarrow> error + 'a \<Rightarrow> bool" where
  "agree r1 r2 = ((case r1 of Inl e \<Rightarrow> count_error e | Inr _ \<Rightarrow> False) \<or> r1 = r2)"

section \<open>Properties\<close>

subsection \<open>The equations of the recursive descent\<close>

lemma decoder_out_of_fuel:
  "decode_object_loop 0 ls i base_depth opts obj = Inl OutOfFuel"
  "decode_key_value_pair 0 line ls i base_depth opts = Inl OutOfFuel"
  "decode_key_value 0 content ls i base_depth opts = Inl OutOfFuel"
  "decode_array_from_header 0 header inline_values ls i base_depth opts = Inl OutOfFuel"
  "list_loop 0 header ls i item_depth opts items = Inl OutOfFuel"
  "decode_list_item 0 ls i base_depth active_delimiter opts = Inl OutOfFuel"
  "decode_object_from_list_item 0 line ls i base_depth opts = Inl OutOfFuel"
  "list_item_object_loop 0 ls i follow_depth opts obj = Inl OutOfFuel"
  by (simp_all add: decode_object_loop_def decode_key_value_pair_def decode_key_value_def
      decode_array_from_header_def list_loop_def decode_list_item_def
      decode_object_from_list_item_def list_item_object_loop_def)

lemma decode_object_loop_Suc:
  "decode_object_loop (Suc n) ls i base_depth opts obj =
     decode_object_loop_body (decode_object_loop n) (decode_key_value_pair n)
       ls i base_depth opts obj"
  by (simp add: decode_object_loop_def decode_key_value_pair_def)

lemma decode_key_value_pair_Suc:
  "decode_key_value_pair (Suc n) line ls i base_depth opts =
     decode_key_value_pair_body (decode_key_value n) line ls i base_depth opts"
  by (simp add: decode_key_value_pair_def decode_key_value_def)

lemma decode_key_value_Suc:
  "decode_key_value (Suc n) content ls i base_depth opts =
     decode_key_value_body (decode_array_from_header n) (decode_object_loop n)
       content ls i base_depth opts"
  by (simp add: decode_key_value_def decode_array_from_header_def decode_object_loop_def)

lemma decode_array_from_header_Suc:
  "decode_array_from_header (Suc n) header inline_values ls i base_depth opts =
     decode_array_from_header_body (list_loop n) header inline_values ls i base_depth opts"
  by (simp add: decode_array_from_header_def list_loop_def)

lemma list_loop_Suc:
  "list_loop (Suc n) header ls i item_depth opts items =
     list_loop_body (list_loop n) (decode_list_item n) (decode_array_from_header n)
       header ls i item_depth opts items"
  by (simp add: list_loop_def decode_list_item_def decode_array_from_header_def)

lemma decode_list_item_Suc:
  "decode_list_item (Suc n) ls i base_depth active_delimiter opts =
     decode_list_item_body (decode_array_from_header n) (decode_object_from_list_item n)
       ls i base_depth active_delimiter opts"
  by (simp add: decode_list_item_def decode_array_from_header_def decode_object_from_list_item_def)

lemma decode_object_from_list_item_Suc:
  "decode_object_from_list_item (Suc n) line ls i base_depth opts =
     decode_object_from_list_item_body (decode_key_value n) (list_item_object_loop n)
       line ls i base_depth opts"
  by (simp add: decode_object_from_list_item_def decode_key_value_def list_item_object_loop_def)

lemma list_item_object_loop_Suc:
  "list_item_object_loop (Suc n) ls i follow_depth opts obj =
     list_item_object_loop_body (list_item_object_loop n) (decode_key_value_pair n)
       ls i follow_depth opts obj"
  by (simp add: list_item_object_loop_def decode_key_value_pair_def)

lemmas decoder_Suc =
  decode_object_loop_Suc decode_key_value_pair_Suc decode_key_value_Suc
  decode_array_from_header_Suc list_loop_Suc decode_list_item_Suc
  decode_object_from_list_item_Suc list_item_object_loop_Suc

declare decoder_out_of_fuel [code] decoder_Suc [code]

subsection \<open>The fuel of the decoder is sufficient\<close>

text \<open>No function outside the recursion returns \<open>OutOfFuel\<close>.\<close>

lemma map_sum_Inl_iff: "(map_sum id f r = Inl e) = (r = Inl e)"
  by (cases r) auto

lemma unescape_string_error: "unescape_string s = Inl e \<Longrightarrow> e \<noteq> OutOfFuel"
  by (induction s rule: unescape_string.induct)
     (auto simp: map_sum_Inl_iff split: if_splits)

lemma string_literal_loop_error: "string_literal_loop s acc = Inl e \<Longrightarrow> e \<noteq> OutOfFuel"
  by (induction s acc rule: string_literal_loop.induct)
     (auto split: if_splits dest: unescape_string_error)

lemma parse_string_literal_error: "parse_string_literal t = Inl e \<Longrightarrow> e \<noteq> OutOfFuel"
  by (auto simp: parse_string_literal_def Let_def split: if_splits dest: string_literal_loop_error)

lemma sequence_res_error:
  "sequence_res rs = Inl e \<Longrightarrow> Inl e \<in> set rs"
  by (induction rs rule: sequence_res.induct) (auto split: sum.splits)

lemma parse_fields_segment_error: "parse_fields_segment s d = Inl e \<Longrightarrow> e \<noteq> OutOfFuel"
  unfolding parse_fields_segment_def
  by (auto dest!: sequence_res_error dest: parse_string_literal_error [OF sym])

lemma parse_array_header_line_error: "parse_array_header_line c d = Inl e \<Longrightarrow> e \<noteq> OutOfFuel"
  unfolding parse_array_header_line_def Let_def
  by (auto simp: map_sum_Inl_iff split: option.splits sum.splits prod.splits if_splits
      dest: parse_string_literal_error parse_fields_segment_error)

lemma parse_primitive_token_error: "parse_primitive_token t = Inl e \<Longrightarrow> e \<noteq> OutOfFuel"
  unfolding parse_primitive_token_def Let_def
  by (auto simp: map_sum_Inl_iff split: option.splits if_splits dest: parse_string_literal_error)

lemma map_row_values_to_primitives_error:
  "map_row_values_to_primitives vs = Inl e \<Longrightarrow> e \<noteq> OutOfFuel"
  unfolding map_row_values_to_primitives_def
  by (auto dest!: sequence_res_error dest: parse_primitive_token_error [OF sym])

lemma quoted_key_loop_error: "quoted_key_loop s i acc = Inl e \<Longrightarrow> e \<noteq> OutOfFuel"
  by (induction s i acc rule: quoted_key_loop.induct)
     (auto split: if_splits sum.splits dest: unescape_string_error)

lemma parse_key_token_error: "parse_key_token c s = Inl e \<Longrightarrow> e \<noteq> OutOfFuel"
  by (auto simp: parse_key_token_def parse_quoted_key_def parse_unquoted_key_def
      split: option.splits if_splits dest: quoted_key_loop_error)

lemma assert_expected_count_error: "assert_expected_count a x l opts = Inl e \<Longrightarrow> e \<noteq> OutOfFuel"
  by (auto simp: assert_expected_count_def split: if_splits)

lemma build_row_error: "build_row fs ps obj = Inl e \<Longrightarrow> e \<noteq> OutOfFuel"
  by (induction fs ps obj rule: build_row.induct) auto

lemma decode_inline_primitive_array_error:
  "decode_inline_primitive_array h s opts = Inl e \<Longrightarrow> e \<noteq> OutOfFuel"
  unfolding decode_inline_primitive_array_def Let_def
  by (auto split: sum.splits
      dest: map_row_values_to_primitives_error assert_expected_count_error)

lemma decode_tabular_row_error: "decode_tabular_row h line opts = Inl e \<Longrightarrow> e \<noteq> OutOfFuel"
  unfolding decode_tabular_row_def Let_def
  by (auto split: sum.splits
      dest: map_row_values_to_primitives_error assert_expected_count_error build_row_error)

lemma tabular_loop_error: "tabular_loop h ls i rd opts objs = Inl e \<Longrightarrow> e \<noteq> OutOfFuel"
proof (induction h ls i rd opts objs rule: tabular_loop.induct)
  case (1 h ls i rd opts objs)
  show ?case
  proof (cases "length ls \<le> i \<or> hdr_length h \<le> length objs \<or> pl_depth (ls ! i) \<noteq> rd")
    case True
    with "1.prems" show ?thesis
      by (subst (asm) tabular_loop.simps) (auto split: if_splits)
  next
    case False
    show ?thesis
    proof (cases "decode_tabular_row h (ls ! i) opts")
      case (Inl e')
      with False "1.prems" have "e = e'"
        by (subst (asm) tabular_loop.simps) (auto split: if_splits)
      with Inl show ?thesis by (auto dest: decode_tabular_row_error)
    next
      case (Inr obj)
      with False "1.prems" have "tabular_loop h ls (i + 1) rd opts (objs @ [obj]) = Inl e"
        by (subst (asm) tabular_loop.simps) (auto split: if_splits)
      with False Inr show ?thesis by (intro "1.IH") auto
    qed
  qed
qed

lemma tabular_loop_mono: "tabular_loop h ls i rd opts objs = Inr (objs', i') \<Longrightarrow> i \<le> i'"
proof (induction h ls i rd opts objs rule: tabular_loop.induct)
  case (1 h ls i rd opts objs)
  show ?case
  proof (cases "length ls \<le> i \<or> hdr_length h \<le> length objs \<or> pl_depth (ls ! i) \<noteq> rd")
    case True
    with "1.prems" show ?thesis
      by (subst (asm) tabular_loop.simps) (auto split: if_splits)
  next
    case False
    with "1.prems" obtain obj where obj: "decode_tabular_row h (ls ! i) opts = Inr obj"
      and rest: "tabular_loop h ls (i + 1) rd opts (objs @ [obj]) = Inr (objs', i')"
      by (subst (asm) tabular_loop.simps) (auto split: if_splits sum.splits)
    from False obj rest have "i + 1 \<le> i'" by (intro "1.IH") auto
    then show ?thesis by simp
  qed
qed

lemma tabular_finish_error: "tabular_finish h ls i rd opts objs = Inl e \<Longrightarrow> e \<noteq> OutOfFuel"
  unfolding tabular_finish_def
  by (auto split: sum.splits option.splits if_splits dest: assert_expected_count_error)

lemma tabular_finish_index: "tabular_finish h ls i rd opts objs = Inr (objs', i') \<Longrightarrow> i' = i"
  unfolding tabular_finish_def
  by (auto split: sum.splits option.splits if_splits)

lemma decode_tabular_array_error: "decode_tabular_array h ls i bd opts = Inl e \<Longrightarrow> e \<noteq> OutOfFuel"
  unfolding decode_tabular_array_def
  by (auto split: sum.splits prod.splits dest: tabular_loop_error tabular_finish_error)

lemma decode_tabular_array_mono:
  "decode_tabular_array h ls i bd opts = Inr (objs, i') \<Longrightarrow> i \<le> i'"
  unfolding decode_tabular_array_def
  by (auto split: sum.splits prod.splits dest: tabular_loop_mono tabular_finish_index)

lemma list_finish_error: "list_finish h ls i d opts items = Inl e \<Longrightarrow> e \<noteq> OutOfFuel"
  unfolding list_finish_def
  by (auto split: sum.splits option.splits if_splits dest: assert_expected_count_error)

lemma list_finish_index: "list_finish h ls i d opts items = Inr (v, i') \<Longrightarrow> i' = i"
  unfolding list_finish_def
  by (auto split: sum.splits option.splits if_splits)

lemma scan_lines_error: "scan_lines rs n = Inl e \<Longrightarrow> e \<noteq> OutOfFuel"
  by (induction rs n rule: scan_lines.induct) (auto simp: Let_def split: sum.splits if_splits)


text \<open>The cursor never moves backwards; a key-value line or a list item moves it on.\<close>

lemma object_loop_body_mono:
  assumes "\<And>ls i d opts obj r i'. ol ls i d opts obj = Inr (r, i') \<Longrightarrow> i \<le> i'"
    and "\<And>line ls i d opts r i'. kvp line ls i d opts = Inr (r, i') \<Longrightarrow> Suc i \<le> i'"
    and "decode_object_loop_body ol kvp ls i d opts obj = Inr (r, i')"
  shows "i \<le> i'"
  using assms(3) unfolding decode_object_loop_body_def
  by (auto split: option.splits if_splits sum.splits prod.splits dest!: assms(1,2))

lemma key_value_pair_body_mono:
  assumes "\<And>c ls i d opts r i'. kv c ls i d opts = Inr (r, i') \<Longrightarrow> i \<le> i'"
    and "decode_key_value_pair_body kv line ls i d opts = Inr (r, i')"
  shows "Suc i \<le> i'"
  using assms(2) unfolding decode_key_value_pair_body_def
  by (auto split: sum.splits prod.splits dest!: assms(1))

lemma key_value_body_mono:
  assumes "\<And>h inl ls i d opts r i'. afh h inl ls i d opts = Inr (r, i') \<Longrightarrow> i \<le> i'"
    and "\<And>ls i d opts obj r i'. ol ls i d opts obj = Inr (r, i') \<Longrightarrow> i \<le> i'"
    and "decode_key_value_body afh ol c ls i d opts = Inr (r, i')"
  shows "i \<le> i'"
  using assms(3) unfolding decode_key_value_body_def
  by (auto split: option.splits if_splits sum.splits prod.splits dest!: assms(1,2))

lemma array_from_header_body_mono:
  assumes "\<And>h ls i d opts items r i'. ll h ls i d opts items = Inr (r, i') \<Longrightarrow> i \<le> i'"
    and "decode_array_from_header_body ll h inl ls i d opts = Inr (r, i')"
  shows "i \<le> i'"
  using assms(2) unfolding decode_array_from_header_body_def
  by (auto split: if_splits sum.splits prod.splits dest!: assms(1) decode_tabular_array_mono)

lemma list_loop_body_mono:
  assumes "\<And>h ls i d opts items r i'. ll h ls i d opts items = Inr (r, i') \<Longrightarrow> i \<le> i'"
    and "\<And>ls i d c opts r i'. li ls i d c opts = Inr (r, i') \<Longrightarrow> Suc i \<le> i'"
    and "\<And>h inl ls i d opts r i'. afh h inl ls i d opts = Inr (r, i') \<Longrightarrow> i \<le> i'"
    and "list_loop_body ll li afh h ls i d opts items = Inr (r, i')"
  shows "i \<le> i'"
  using assms(4) unfolding list_loop_body_def
  by (auto split: option.splits if_splits sum.splits prod.splits
      dest!: assms(1,2,3) list_finish_index)

lemma list_item_body_mono:
  assumes "\<And>h inl ls i d opts r i'. afh h inl ls i d opts = Inr (r, i') \<Longrightarrow> i \<le> i'"
    and "\<And>line ls i d opts r i'. ofli line ls i d opts = Inr (r, i') \<Longrightarrow> i \<le> i'"
    and "decode_list_item_body afh ofli ls i d c opts = Inr (r, i')"
  shows "Suc i \<le> i'"
  using assms(3) unfolding decode_list_item_body_def
  by (auto split: option.splits if_splits sum.splits prod.splits dest!: assms(1,2))

lemma object_from_list_item_body_mono:
  assumes "\<And>c ls i d opts r i'. kv c ls i d opts = Inr (r, i') \<Longrightarrow> i \<le> i'"
    and "\<And>ls i d opts obj r i'. liol ls i d opts obj = Inr (r, i') \<Longrightarrow> i \<le> i'"
    and "decode_object_from_list_item_body kv liol line ls i d opts = Inr (r, i')"
  shows "i \<le> i'"
  using assms(3) unfolding decode_object_from_list_item_body_def
  by (auto split: sum.splits prod.splits dest!: assms(1,2))

lemma list_item_object_loop_body_mono:
  assumes "\<And>ls i d opts obj r i'. liol ls i d opts obj = Inr (r, i') \<Longrightarrow> i \<le> i'"
    and "\<And>line ls i d opts r i'. kvp line ls i d opts = Inr (r, i') \<Longrightarrow> Suc i \<le> i'"
    and "list_item_object_loop_body liol kvp ls i d opts obj = Inr (r, i')"
  shows "i \<le> i'"
  using assms(3) unfolding list_item_object_loop_body_def
  by (auto split: option.splits if_splits sum.splits prod.splits dest!: assms(1,2))

lemma decoder_mono:
  "(\<forall>ls i d opts obj r i'. decode_object_loop n ls i d opts obj = Inr (r, i') \<longrightarrow> i \<le> i')
 \<and> (\<forall>line ls i d opts r i'. decode_key_value_pair n line ls i d opts = Inr (r, i') \<longrightarrow> Suc i \<le> i')
 \<and> (\<forall>c ls i d opts r i'. decode_key_value n c ls i d opts = Inr (r, i') \<longrightarrow> i \<le> i')
 \<and> (\<forall>h inl ls i d opts r i'. decode_array_from_header n h inl ls i d opts = Inr (r, i') \<longrightarrow> i \<le> i')
 \<and> (\<forall>h ls i d opts items r i'. list_loop n h ls i d opts items = Inr (r, i') \<longrightarrow> i \<le> i')
 \<and> (\<forall>ls i d c opts r i'. decode_list_item n ls i d c opts = Inr (r, i') \<longrightarrow> Suc i \<le> i')
 \<and> (\<forall>line ls i d opts r i'. decode_object_from_list_item n line ls i d opts = Inr (r, i') \<longrightarrow> i \<le> i')
 \<and> (\<forall>ls i d opts obj r i'. list_item_object_loop n ls i d opts obj = Inr (r, i') \<longrightarrow> i \<le> i')"
proof (induction n)
  case 0
  show ?case by (simp add: decoder_out_of_fuel)
next
  case (Suc n)
  note ol = Suc.IH [THEN conjunct1, rule_format]
  note kvp = Suc.IH [THEN conjunct2, THEN conjunct1, rule_format]
  note kv = Suc.IH [THEN conjunct2, THEN conjunct2, THEN conjunct1, rule_format]
  note afh = Suc.IH [THEN conjunct2, THEN conjunct2, THEN conjunct2, THEN conjunct1, rule_format]
  note ll = Suc.IH [THEN conjunct2, THEN conjunct2, THEN conjunct2, THEN conjunct2, THEN conjunct1, rule_format]
  note li = Suc.IH [THEN conjunct2, THEN conjunct2, THEN conjunct2, THEN conjunct2, THEN conjunct2, THEN conjunct1, rule_format]
  note ofli = Suc.IH [THEN conjunct2, THEN conjunct2, THEN conjunct2, THEN conjunct2, THEN conjunct2, THEN conjunct2, THEN conjunct1, rule_format]
  note liol = Suc.IH [THEN conjunct2, THEN conjunct2, THEN conjunct2, THEN conjunct2, THEN conjunct2, THEN conjunct2, THEN conjunct2, rule_format]
  show ?case
    unfolding decoder_Suc
    apply (intro conjI allI impI)
           apply (erule object_loop_body_mono [OF ol kvp, rotated -1]; assumption)
          apply (erule key_value_pair_body_mono [OF kv, rotated -1]; assumption)
         apply (erule key_value_body_mono [OF afh ol, rotated -1]; assumption)
        apply (erule array_from_header_body_mono [OF ll, rotated -1]; assumption)
       apply (erule list_loop_body_mono [OF ll li afh, rotated -1]; assumption)
      apply (erule list_item_body_mono [OF afh ofli, rotated -1]; assumption)
     apply (erule object_from_list_item_body_mono [OF kv liol, rotated -1]; assumption)
    apply (erule list_item_object_loop_body_mono [OF liol kvp, rotated -1]; assumption)
    done
qed


text \<open>
  Fuel: with \<open>m\<close> lines left, \<open>5 m\<close> plus a constant per function is enough, since
  at most five calls are nested between two lines.
\<close>

lemma object_loop_body_fuel:
  assumes ol: "\<And>ls i d opts obj. ol ls i d opts obj = Inl OutOfFuel \<Longrightarrow> 5 * (length ls - i) + 2 \<le> n \<Longrightarrow> False"
    and kvp: "\<And>line ls i d opts. kvp line ls i d opts = Inl OutOfFuel \<Longrightarrow> i < length ls \<Longrightarrow> 5 * (length ls - i) + 1 \<le> n \<Longrightarrow> False"
    and kvp_mono: "\<And>line ls i d opts r i'. kvp line ls i d opts = Inr (r, i') \<Longrightarrow> Suc i \<le> i'"
    and fuel: "5 * (length ls - i) + 2 \<le> Suc n"
  shows "decode_object_loop_body ol kvp ls i d opts obj \<noteq> Inl OutOfFuel"
  using fuel unfolding decode_object_loop_body_def
  by (auto split: option.splits sum.splits prod.splits if_splits simp: peek_def
      dest!: kvp_mono elim!: ol kvp)


lemma key_value_pair_body_fuel:
  assumes kv: "\<And>c ls i d opts. kv c ls i d opts = Inl OutOfFuel \<Longrightarrow> 5 * (length ls - i) + 5 \<le> n \<Longrightarrow> False"
    and lt: "i < length ls"
    and fuel: "5 * (length ls - i) + 1 \<le> Suc n"
  shows "decode_key_value_pair_body kv line ls i d opts \<noteq> Inl OutOfFuel"
  using fuel lt unfolding decode_key_value_pair_body_def
  by (auto split: sum.splits prod.splits elim!: kv)

lemma key_value_body_fuel:
  assumes afh: "\<And>h inl ls i d opts. afh h inl ls i d opts = Inl OutOfFuel \<Longrightarrow> 5 * (length ls - i) + 4 \<le> n \<Longrightarrow> False"
    and ol: "\<And>ls i d opts obj. ol ls i d opts obj = Inl OutOfFuel \<Longrightarrow> 5 * (length ls - i) + 2 \<le> n \<Longrightarrow> False"
    and fuel: "5 * (length ls - i) + 5 \<le> Suc n"
  shows "decode_key_value_body afh ol c ls i d opts \<noteq> Inl OutOfFuel"
  using fuel unfolding decode_key_value_body_def
  by (auto split: option.splits sum.splits prod.splits if_splits
      dest: parse_array_header_line_error parse_key_token_error parse_primitive_token_error
      elim!: afh ol)

lemma array_from_header_body_fuel:
  assumes ll: "\<And>h ls i d opts items. ll h ls i d opts items = Inl OutOfFuel \<Longrightarrow> 5 * (length ls - i) + 3 \<le> n \<Longrightarrow> False"
    and fuel: "5 * (length ls - i) + 4 \<le> Suc n"
  shows "decode_array_from_header_body ll h inl ls i d opts \<noteq> Inl OutOfFuel"
  using fuel unfolding decode_array_from_header_body_def
  by (auto split: sum.splits prod.splits if_splits
      dest: decode_inline_primitive_array_error decode_tabular_array_error
      elim!: ll)

lemma list_loop_body_fuel:
  assumes ll: "\<And>h ls i d opts items. ll h ls i d opts items = Inl OutOfFuel \<Longrightarrow> 5 * (length ls - i) + 3 \<le> n \<Longrightarrow> False"
    and li: "\<And>ls i d c opts. li ls i d c opts = Inl OutOfFuel \<Longrightarrow> i < length ls \<Longrightarrow> 5 * (length ls - i) + 2 \<le> n \<Longrightarrow> False"
    and afh: "\<And>h inl ls i d opts. afh h inl ls i d opts = Inl OutOfFuel \<Longrightarrow> 5 * (length ls - i) + 4 \<le> n \<Longrightarrow> False"
    and li_mono: "\<And>ls i d c opts r i'. li ls i d c opts = Inr (r, i') \<Longrightarrow> Suc i \<le> i'"
    and afh_mono: "\<And>h inl ls i d opts r i'. afh h inl ls i d opts = Inr (r, i') \<Longrightarrow> i \<le> i'"
    and fuel: "5 * (length ls - i) + 3 \<le> Suc n"
  shows "list_loop_body ll li afh h ls i d opts items \<noteq> Inl OutOfFuel"
  using fuel unfolding list_loop_body_def
  by (auto split: option.splits sum.splits prod.splits if_splits
      dest: parse_array_header_line_error list_finish_error
      dest!: li_mono afh_mono elim!: ll li afh)

lemma list_item_body_fuel:
  assumes afh: "\<And>h inl ls i d opts. afh h inl ls i d opts = Inl OutOfFuel \<Longrightarrow> 5 * (length ls - i) + 4 \<le> n \<Longrightarrow> False"
    and ofli: "\<And>line ls i d opts. ofli line ls i d opts = Inl OutOfFuel \<Longrightarrow> 5 * (length ls - i) + 6 \<le> n \<Longrightarrow> False"
    and lt: "i < length ls"
    and fuel: "5 * (length ls - i) + 2 \<le> Suc n"
  shows "decode_list_item_body afh ofli ls i d c opts \<noteq> Inl OutOfFuel"
  using fuel lt unfolding decode_list_item_body_def
  by (auto split: option.splits sum.splits prod.splits if_splits
      dest: parse_array_header_line_error parse_primitive_token_error
      elim!: afh ofli)

lemma object_from_list_item_body_fuel:
  assumes kv: "\<And>c ls i d opts. kv c ls i d opts = Inl OutOfFuel \<Longrightarrow> 5 * (length ls - i) + 5 \<le> n \<Longrightarrow> False"
    and liol: "\<And>ls i d opts obj. liol ls i d opts obj = Inl OutOfFuel \<Longrightarrow> 5 * (length ls - i) + 2 \<le> n \<Longrightarrow> False"
    and kv_mono: "\<And>c ls i d opts r i'. kv c ls i d opts = Inr (r, i') \<Longrightarrow> i \<le> i'"
    and fuel: "5 * (length ls - i) + 6 \<le> Suc n"
  shows "decode_object_from_list_item_body kv liol line ls i d opts \<noteq> Inl OutOfFuel"
  using fuel unfolding decode_object_from_list_item_body_def
  by (auto split: sum.splits prod.splits dest!: kv_mono elim!: kv liol)

lemma list_item_object_loop_body_fuel:
  assumes liol: "\<And>ls i d opts obj. liol ls i d opts obj = Inl OutOfFuel \<Longrightarrow> 5 * (length ls - i) + 2 \<le> n \<Longrightarrow> False"
    and kvp: "\<And>line ls i d opts. kvp line ls i d opts = Inl OutOfFuel \<Longrightarrow> i < length ls \<Longrightarrow> 5 * (length ls - i) + 1 \<le> n \<Longrightarrow> False"
    and kvp_mono: "\<And>line ls i d opts r i'. kvp line ls i d opts = Inr (r, i') \<Longrightarrow> Suc i \<le> i'"
    and fuel: "5 * (length ls - i) + 2 \<le> Suc n"
  shows "list_item_object_loop_body liol kvp ls i d opts obj \<noteq> Inl OutOfFuel"
  using fuel unfolding list_item_object_loop_body_def
  by (auto split: option.splits sum.splits prod.splits if_splits simp: peek_def
      dest!: kvp_mono elim!: liol kvp)

lemma decoder_fuel:
  "(\<forall>ls i d opts obj. 5 * (length ls - i) + 2 \<le> n \<longrightarrow> decode_object_loop n ls i d opts obj \<noteq> Inl OutOfFuel)
 \<and> (\<forall>line ls i d opts. i < length ls \<longrightarrow> 5 * (length ls - i) + 1 \<le> n \<longrightarrow>
        decode_key_value_pair n line ls i d opts \<noteq> Inl OutOfFuel)
 \<and> (\<forall>c ls i d opts. 5 * (length ls - i) + 5 \<le> n \<longrightarrow> decode_key_value n c ls i d opts \<noteq> Inl OutOfFuel)
 \<and> (\<forall>h inl ls i d opts. 5 * (length ls - i) + 4 \<le> n \<longrightarrow>
        decode_array_from_header n h inl ls i d opts \<noteq> Inl OutOfFuel)
 \<and> (\<forall>h ls i d opts items. 5 * (length ls - i) + 3 \<le> n \<longrightarrow>
        list_loop n h ls i d opts items \<noteq> Inl OutOfFuel)
 \<and> (\<forall>ls i d c opts. i < length ls \<longrightarrow> 5 * (length ls - i) + 2 \<le> n \<longrightarrow>
        decode_list_item n ls i d c opts \<noteq> Inl OutOfFuel)
 \<and> (\<forall>line ls i d opts. 5 * (length ls - i) + 6 \<le> n \<longrightarrow>
        decode_object_from_list_item n line ls i d opts \<noteq> Inl OutOfFuel)
 \<and> (\<forall>ls i d opts obj. 5 * (length ls - i) + 2 \<le> n \<longrightarrow>
        list_item_object_loop n ls i d opts obj \<noteq> Inl OutOfFuel)"
proof (induction n)
  case 0
  show ?case by simp
next
  case (Suc n)
  note ol = Suc.IH [THEN conjunct1, rule_format, THEN notE]
  note kvp = Suc.IH [THEN conjunct2, THEN conjunct1, rule_format, THEN notE]
  note kv = Suc.IH [THEN conjunct2, THEN conjunct2, THEN conjunct1, rule_format, THEN notE]
  note afh = Suc.IH [THEN conjunct2, THEN conjunct2, THEN conjunct2, THEN conjunct1, rule_format, THEN notE]
  note ll = Suc.IH [THEN conjunct2, THEN conjunct2, THEN conjunct2, THEN conjunct2, THEN conjunct1, rule_format, THEN notE]
  note li = Suc.IH [THEN conjunct2, THEN conjunct2, THEN conjunct2, THEN conjunct2, THEN conjunct2, THEN conjunct1, rule_format, THEN notE]
  note ofli = Suc.IH [THEN conjunct2, THEN conjunct2, THEN conjunct2, THEN conjunct2, THEN conjunct2, THEN conjunct2, THEN conjunct1, rule_format, THEN notE]
  note liol = Suc.IH [THEN conjunct2, THEN conjunct2, THEN conjunct2, THEN conjunct2, THEN conjunct2, THEN conjunct2, THEN conjunct2, rule_format, THEN notE]
  note kvp_mono = decoder_mono [of n, THEN conjunct2, THEN conjunct1, rule_format]
  note kv_mono = decoder_mono [of n, THEN conjunct2, THEN conjunct2, THEN conjunct1, rule_format]
  note afh_mono = decoder_mono [of n, THEN conjunct2, THEN conjunct2, THEN conjunct2, THEN conjunct1, rule_format]
  note li_mono = decoder_mono [of n, THEN conjunct2, THEN conjunct2, THEN conjunct2, THEN conjunct2, THEN conjunct2, THEN conjunct1, rule_format]
  have 1: "decode_object_loop (Suc n) ls i d opts obj \<noteq> Inl OutOfFuel"
    if "5 * (length ls - i) + 2 \<le> Suc n" for ls i d opts obj
    unfolding decoder_Suc
    by (rule object_loop_body_fuel [where n = n, OF _ _ kvp_mono that]) (blast intro: ol kvp)+
  have 2: "decode_key_value_pair (Suc n) line ls i d opts \<noteq> Inl OutOfFuel"
    if "i < length ls" "5 * (length ls - i) + 1 \<le> Suc n" for line ls i d opts
    unfolding decoder_Suc
    by (rule key_value_pair_body_fuel [where n = n, OF _ that]) (blast intro: kv)+
  have 3: "decode_key_value (Suc n) c ls i d opts \<noteq> Inl OutOfFuel"
    if "5 * (length ls - i) + 5 \<le> Suc n" for c ls i d opts
    unfolding decoder_Suc
    by (rule key_value_body_fuel [where n = n, OF _ _ that]) (blast intro: afh ol)+
  have 4: "decode_array_from_header (Suc n) h inl ls i d opts \<noteq> Inl OutOfFuel"
    if "5 * (length ls - i) + 4 \<le> Suc n" for h inl ls i d opts
    unfolding decoder_Suc
    by (rule array_from_header_body_fuel [where n = n, OF _ that]) (blast intro: ll)+
  have 5: "list_loop (Suc n) h ls i d opts items \<noteq> Inl OutOfFuel"
    if "5 * (length ls - i) + 3 \<le> Suc n" for h ls i d opts items
    unfolding decoder_Suc
    by (rule list_loop_body_fuel [where n = n, OF _ _ _ li_mono afh_mono that]) (blast intro: ll li afh)+
  have 6: "decode_list_item (Suc n) ls i d c opts \<noteq> Inl OutOfFuel"
    if "i < length ls" "5 * (length ls - i) + 2 \<le> Suc n" for ls i d c opts
    unfolding decoder_Suc
    by (rule list_item_body_fuel [where n = n, OF _ _ that]) (blast intro: afh ofli)+
  have 7: "decode_object_from_list_item (Suc n) line ls i d opts \<noteq> Inl OutOfFuel"
    if "5 * (length ls - i) + 6 \<le> Suc n" for line ls i d opts
    unfolding decoder_Suc
    by (rule object_from_list_item_body_fuel [where n = n, OF _ _ kv_mono that]) (blast intro: kv liol)+
  have 8: "list_item_object_loop (Suc n) ls i d opts obj \<noteq> Inl OutOfFuel"
    if "5 * (length ls - i) + 2 \<le> Suc n" for ls i d opts obj
    unfolding decoder_Suc
    by (rule list_item_object_loop_body_fuel [where n = n, OF _ _ kvp_mono that]) (blast intro: liol kvp)+
  show ?case
    by (intro conjI allI impI; (rule 1 2 3 4 5 6 7 8; assumption))
qed

text \<open>
  The fuel that \<open>decode\<close> supplies is always enough: \<open>OutOfFuel\<close> is never its
  result, so every failure of \<open>decode\<close> in the model is a failure of the program.
\<close>

theorem decode_never_out_of_fuel: "decode text opts \<noteq> Inl OutOfFuel"
proof -
  have lines: "decode_value_from_lines ls opts \<noteq> Inl OutOfFuel" for ls
  proof -
    have a: "decode_array_from_header (fuel_for ls) h inl ls 1 0 opts \<noteq> Inl OutOfFuel" for h inl
      by (rule decoder_fuel [THEN conjunct2, THEN conjunct2, THEN conjunct2, THEN conjunct1, rule_format])
         (simp add: fuel_for_def)
    have b: "decode_object_loop (fuel_for ls) ls 0 0 opts [] \<noteq> Inl OutOfFuel"
      by (rule decoder_fuel [THEN conjunct1, rule_format]) (simp add: fuel_for_def)
    show ?thesis
      unfolding decode_value_from_lines_def decode_object_def using a b
      by (auto simp: map_sum_Inl_iff split: option.splits sum.splits prod.splits if_splits
          dest: parse_array_header_line_error parse_primitive_token_error)
  qed
  show ?thesis
    unfolding decode_def to_parsed_lines_def using lines
    by (auto split: sum.splits if_splits dest: scan_lines_error)
qed

subsection \<open>Round trip\<close>

text \<open>
  C1, at its failing input.  The object \<open>{"a b": [1]}\<close> is canonical; its key
  needs quotes, so it is encoded as the line \<open>"a b"[1]: 1\<close>.  The decoder refuses
  an array header that starts with a quote, takes the line for a root primitive
  and fails on the characters after the closing quote.
\<close>

theorem C1_failing_input:
  "encode_value (JObj [(''a b'', JArr [JInt 1])]) default_encode_options
     = Inr ([DOUBLE_QUOTE] @ ''a b'' @ [DOUBLE_QUOTE] @ ''[1]: 1'')
   \<and> decode ([DOUBLE_QUOTE] @ ''a b'' @ [DOUBLE_QUOTE] @ ''[1]: 1'') default_decode_options
     = Inl UnexpectedAfterQuote"
  by code_simp

subsection \<open>Normalization of integers\<close>



subsection \<open>Decoding of unquoted tokens\<close>

text \<open>
  A token that matches the numeric-literal pattern is a sign, digits and a tail
  (a fraction, an exponent, both or neither); Python's \<open>float\<close> and \<open>int\<close> read
  such a token, since digits without underscores are a digit part.
\<close>

lemma digit_not_space: "is_digit c \<Longrightarrow> \<not> py_isspace c"
  by (auto simp: is_digit_def py_isspace_def Let_def)

lemma digitpart_rest_digits:
  assumes "list_all is_digit ds" and "r = [] \<or> (\<not> is_digit (hd r) \<and> hd r \<noteq> CHR ''_'')"
  shows "digitpart_rest (ds @ r) = (ds, r)"
  using assms
proof (induction ds)
  case Nil
  then show ?case
  proof (cases r)
    case Nil
    then show ?thesis by simp
  next
    case (Cons c cs)
    with Nil.prems show ?thesis by (cases cs) auto
  qed
next
  case (Cons c ds)
  then have IH: "digitpart_rest (ds @ r) = (ds, r)" by simp
  from Cons.prems have c: "is_digit c" by simp
  show ?case
  proof (cases "ds @ r")
    case Nil
    with c show ?thesis by simp
  next
    case (Cons d cs)
    with IH c show ?thesis by simp
  qed
qed

lemma digitpart_digits:
  assumes "ds \<noteq> []" "list_all is_digit ds" and "r = [] \<or> (\<not> is_digit (hd r) \<and> hd r \<noteq> CHR ''_'')"
  shows "digitpart (ds @ r) = Some (ds, r)"
proof -
  from assms(1) obtain c cs where ds: "ds = c # cs" by (cases ds) auto
  with assms(2) have "is_digit c" by simp
  with ds digitpart_rest_digits [OF assms(2,3)] show ?thesis
    by (simp add: digitpart_def)
qed

lemma re_digits1_SomeD:
  assumes "re_digits1 s = Some r"
  shows "\<exists>ds. s = ds @ r \<and> ds \<noteq> [] \<and> list_all is_digit ds \<and> (r = [] \<or> \<not> is_digit (hd r))"
proof -
  from assms have ne: "takeWhile is_digit s \<noteq> []" and r: "r = dropWhile is_digit s"
    by (auto simp: re_digits1_def split: if_splits)
  have "s = takeWhile is_digit s @ r" by (simp add: r)
  moreover have "list_all is_digit (takeWhile is_digit s)"
    by (auto simp: list_all_iff dest: set_takeWhileD)
  moreover have "r = [] \<or> \<not> is_digit (hd r)"
  proof (cases "dropWhile is_digit s = []")
    case True
    then show ?thesis by (simp add: r)
  next
    case False
    from hd_dropWhile [OF this] show ?thesis by (simp add: r)
  qed
  ultimately show ?thesis using ne by blast
qed


lemma list_all_digit_last: "ds \<noteq> [] \<Longrightarrow> list_all is_digit ds \<Longrightarrow> is_digit (last ds)"
  by (simp add: list_all_iff)

lemma list_all_digit_hd: "ds \<noteq> [] \<Longrightarrow> list_all is_digit ds \<Longrightarrow> is_digit (hd ds)"
  by (cases ds) simp_all

lemma digit_not_sign: "is_digit c \<Longrightarrow> c \<noteq> CHR ''-'' \<and> c \<noteq> CHR ''+'' \<and> c \<noteq> CHR ''.''
    \<and> c \<noteq> CHR ''e'' \<and> c \<noteq> CHR ''E'' \<and> c \<noteq> CHR ''_'' \<and> c \<noteq> CHR 0x22"
  by (auto simp: is_digit_def)

lemma re_opt_exponent_NilD:
  assumes "re_opt_exponent s = []" and "s \<noteq> []"
  shows "\<exists>c sg xp. s = c # sg @ xp \<and> (c = CHR ''e'' \<or> c = CHR ''E'')
           \<and> (sg = [] \<or> sg = ''+'' \<or> sg = ''-'') \<and> xp \<noteq> [] \<and> list_all is_digit xp"
proof -
  from assms(2) obtain c u where s: "s = c # u" by (cases s) auto
  define t' where "t' = (case u of x # v \<Rightarrow> if x = CHR ''+'' \<or> x = CHR ''-'' then v else u | [] \<Rightarrow> u)"
  have c: "c = CHR ''e'' \<or> c = CHR ''E''"
    using assms(1) s by (auto simp: re_opt_exponent_def split: if_splits)
  with assms(1) s have "(case re_digits1 t' of Some r \<Rightarrow> r | None \<Rightarrow> s) = []"
    by (auto simp: re_opt_exponent_def t'_def Let_def)
  with assms(2) have "re_digits1 t' = Some []"
    by (cases "re_digits1 t'") auto
  from re_digits1_SomeD [OF this] have t': "t' \<noteq> []" "list_all is_digit t'" by auto
  have "\<exists>sg. u = sg @ t' \<and> (sg = [] \<or> sg = ''+'' \<or> sg = ''-'')"
  proof (cases u)
    case Nil
    then show ?thesis by (simp add: t'_def)
  next
    case (Cons x v)
    then show ?thesis by (auto simp: t'_def)
  qed
  with s c t' show ?thesis by blast
qed

lemma float_exponent_shape:
  assumes "c = CHR ''e'' \<or> c = CHR ''E''" "sg = [] \<or> sg = ''+'' \<or> sg = ''-''"
    "xp \<noteq> []" "list_all is_digit xp"
  shows "float_exponent (c # sg @ xp)
         = Some (if sg = ''-'' then - int (digits_val xp) else int (digits_val xp))"
proof -
  from assms(3,4) have h: "is_digit (hd xp)" by (rule list_all_digit_hd)
  from assms(3) obtain y ys where xp: "xp = y # ys" by (cases xp) auto
  with h have y: "y \<noteq> CHR ''-''" "y \<noteq> CHR ''+''" using digit_not_sign [of y] by auto
  have os: "opt_sign (sg @ xp) = (sg = ''-'', xp)"
    using assms(2) xp y by (auto simp: opt_sign_def)
  have dp: "digitpart xp = Some (xp, [])"
    using digitpart_digits [of xp "[]"] assms(3,4) by simp
  show ?thesis using assms(1) os dp by (auto simp: float_exponent_def)
qed


lemma numeric_tail_cases:
  assumes "re_opt_exponent (re_opt_fraction r) = []"
  shows "r = []
       \<or> (\<exists>fp. r = CHR ''.'' # fp \<and> fp \<noteq> [] \<and> list_all is_digit fp)
       \<or> (\<exists>fp c sg xp. r = CHR ''.'' # fp @ c # sg @ xp \<and> fp \<noteq> [] \<and> list_all is_digit fp
             \<and> (c = CHR ''e'' \<or> c = CHR ''E'') \<and> (sg = [] \<or> sg = ''+'' \<or> sg = ''-'')
             \<and> xp \<noteq> [] \<and> list_all is_digit xp)
       \<or> (\<exists>c sg xp. r = c # sg @ xp
             \<and> (c = CHR ''e'' \<or> c = CHR ''E'') \<and> (sg = [] \<or> sg = ''+'' \<or> sg = ''-'')
             \<and> xp \<noteq> [] \<and> list_all is_digit xp)"
proof (cases r)
  case Nil
  then show ?thesis by simp
next
  case (Cons a u)
  show ?thesis
  proof (cases "a = CHR ''.''")
    case False
    with Cons have "re_opt_fraction r = r" by (simp add: re_opt_fraction_def)
    with assms have "re_opt_exponent r = []" by simp
    from re_opt_exponent_NilD [OF this] Cons show ?thesis by blast
  next
    case dot: True
    show ?thesis
    proof (cases "re_digits1 u")
      case None
      with Cons dot have "re_opt_fraction r = r" by (simp add: re_opt_fraction_def)
      with assms have "re_opt_exponent r = []" by simp
      from re_opt_exponent_NilD [OF this] Cons dot show ?thesis by auto
    next
      case (Some r2)
      with Cons dot have "re_opt_fraction r = r2" by (simp add: re_opt_fraction_def)
      with assms have e: "re_opt_exponent r2 = []" by simp
      from re_digits1_SomeD [OF Some] obtain fp where
        fp: "u = fp @ r2" "fp \<noteq> []" "list_all is_digit fp" by blast
      show ?thesis
      proof (cases "r2 = []")
        case True
        with fp Cons dot show ?thesis by simp
      next
        case False
        from re_opt_exponent_NilD [OF e False] obtain c sg xp where
          "r2 = c # sg @ xp" "c = CHR ''e'' \<or> c = CHR ''E''" "sg = [] \<or> sg = ''+'' \<or> sg = ''-''"
          "xp \<noteq> []" "list_all is_digit xp" by blast
        with fp Cons dot show ?thesis by blast
      qed
    qed
  qed
qed

lemma mk_float_Finite: "\<exists>c e. mk_float neg a b = Finite neg c e"
  by (simp add: mk_float_def split: prod.split)

lemma float_number_numeric:
  assumes ip: "ip \<noteq> []" "list_all is_digit ip"
    and r: "re_opt_exponent (re_opt_fraction r) = []"
  shows "\<exists>c e. float_number neg (ip @ r) = Some (Finite neg c e)"
proof -
  note E = float_exponent_shape
  from numeric_tail_cases [OF r]
  consider (none) "r = []"
    | (frac) fp where "r = CHR ''.'' # fp" "fp \<noteq> []" "list_all is_digit fp"
    | (fracexp) fp c sg xp where "r = CHR ''.'' # fp @ c # sg @ xp" "fp \<noteq> []" "list_all is_digit fp"
        "c = CHR ''e'' \<or> c = CHR ''E''" "sg = [] \<or> sg = ''+'' \<or> sg = ''-''"
        "xp \<noteq> []" "list_all is_digit xp"
    | (exp) c sg xp where "r = c # sg @ xp"
        "c = CHR ''e'' \<or> c = CHR ''E''" "sg = [] \<or> sg = ''+'' \<or> sg = ''-''"
        "xp \<noteq> []" "list_all is_digit xp"
    by blast
  then show ?thesis
  proof cases
    case none
    have "digitpart (ip @ []) = Some (ip, [])" using ip by (intro digitpart_digits) auto
    with none show ?thesis using mk_float_Finite [of neg "digits_val ip" 0]
      by (simp add: float_number_def)
  next
    case frac
    have 1: "digitpart (ip @ r) = Some (ip, r)"
      using ip frac(1) by (intro digitpart_digits) (auto simp: is_digit_def)
    have 2: "digitpart (fp @ []) = Some (fp, [])" using frac by (intro digitpart_digits) auto
    show ?thesis
      using 1 2 frac(1) mk_float_Finite [of neg "digits_val (ip @ fp)" "0 - int (length fp)"]
      by (simp add: float_number_def float_exponent_def)
  next
    case fracexp
    have 1: "digitpart (ip @ r) = Some (ip, r)"
      using ip fracexp(1) by (intro digitpart_digits) (auto simp: is_digit_def)
    have 2: "digitpart (fp @ c # sg @ xp) = Some (fp, c # sg @ xp)"
      using fracexp by (intro digitpart_digits) (auto simp: is_digit_def)
    from E [OF fracexp(4-7)] obtain x where 3: "float_exponent (c # sg @ xp) = Some x" by blast
    show ?thesis
      using 1 2 3 fracexp(1) mk_float_Finite [of neg "digits_val (ip @ fp)" "x - int (length fp)"]
      by (simp add: float_number_def)
  next
    case exp
    have 1: "digitpart (ip @ r) = Some (ip, r)"
      using ip exp(1,2) by (intro digitpart_digits) (auto simp: is_digit_def)
    from E [OF exp(2-5)] obtain x where 3: "float_exponent (c # sg @ xp) = Some x" by blast
    have c: "c \<noteq> CHR ''.''" using exp(2) by auto
    show ?thesis
      using 1 3 c exp(1) mk_float_Finite [of neg "digits_val ip" x]
      by (simp add: float_number_def)
  qed
qed

lemma numeric_tail_last:
  assumes "re_opt_exponent (re_opt_fraction r) = []" "r \<noteq> []"
  shows "is_digit (last r) \<and> (hd r = CHR ''.'' \<or> hd r = CHR ''e'' \<or> hd r = CHR ''E'')"
  using numeric_tail_cases [OF assms(1)] assms(2)
  by (auto simp: list_all_digit_last)


lemma py_strip_id:
  assumes "t \<noteq> []" "\<not> py_isspace (hd t)" "\<not> py_isspace (last t)"
  shows "py_strip t = t"
proof -
  from assms(1,2) have l: "py_lstrip t = t" by (cases t) (simp_all add: py_lstrip_def)
  from assms(1) have "rev t \<noteq> []" by simp
  then obtain y ys where rt: "rev t = y # ys" by (cases "rev t") auto
  then have "y = last t" using assms(1) by (metis hd_rev list.sel(1))
  with assms(3) have "\<not> py_isspace y" by simp
  then have "dropWhile py_isspace (y # ys) = y # ys" by simp
  with rt have "dropWhile py_isspace (rev t) = rev t" by simp
  then have "py_rstrip t = t" by (simp add: py_rstrip_def)
  with l show ?thesis by (simp add: py_strip_def)
qed

lemma re_numeric_shape:
  assumes "re_numeric t"
  shows "\<exists>sg ip r. t = sg @ ip @ r \<and> (sg = [] \<or> sg = ''-'') \<and> ip \<noteq> [] \<and> list_all is_digit ip
           \<and> re_opt_exponent (re_opt_fraction r) = []"
proof -
  define s0 where "s0 = (case t of c # u \<Rightarrow> if c = CHR ''-'' then u else t | [] \<Rightarrow> t)"
  from assms obtain r where r: "re_digits1 s0 = Some r" "re_opt_exponent (re_opt_fraction r) = []"
    by (auto simp: re_numeric_def Let_def s0_def split: option.splits)
  from re_digits1_SomeD [OF r(1)] obtain ip where
    ip: "s0 = ip @ r" "ip \<noteq> []" "list_all is_digit ip" by blast
  have "\<exists>sg. t = sg @ s0 \<and> (sg = [] \<or> sg = ''-'')"
  proof (cases t)
    case Nil
    then show ?thesis by (simp add: s0_def)
  next
    case (Cons c u)
    then show ?thesis by (auto simp: s0_def)
  qed
  with ip r(2) show ?thesis by blast
qed

lemma lower_digit_hd:
  assumes "is_digit c"
  shows "lower (c # cs) \<noteq> ''inf'' \<and> lower (c # cs) \<noteq> ''infinity'' \<and> lower (c # cs) \<noteq> ''nan''"
  using assms by (auto simp: lower_def is_digit_def)

lemma numeric_token_facts:
  assumes t: "t = sg @ ip @ r" and sg: "sg = [] \<or> sg = ''-''"
    and ip: "ip \<noteq> []" "list_all is_digit ip"
    and r: "re_opt_exponent (re_opt_fraction r) = []"
  shows "py_strip t = t"
    and "t \<noteq> []"
    and "\<not> startswith t [DOUBLE_QUOTE]"
    and "\<not> is_boolean_or_null_literal t"
    and "\<exists>c e. py_float t = Some (Finite (sg = ''-'') c e)"
    and "CHR ''.'' \<notin> set t \<and> CHR ''e'' \<notin> set t \<and> CHR ''E'' \<notin> set t
         \<Longrightarrow> py_int t = Some (if sg = ''-'' then - int (digits_val ip) else int (digits_val ip))"
    and "hd t = CHR ''-'' \<longleftrightarrow> sg = ''-''"
    and "CHR ''.'' \<notin> set t \<and> CHR ''e'' \<notin> set t \<and> CHR ''E'' \<notin> set t \<Longrightarrow> r = []"
proof -
  from ip obtain y ys where ipc: "ip = y # ys" and y: "is_digit y" by (cases ip) auto
  note yn = digit_not_sign [OF y]
  show ne: "t \<noteq> []" using t ip by simp
  have hd_t: "hd t = CHR ''-'' \<or> is_digit (hd t)" using t sg ipc y by auto
  have last_t: "is_digit (last t)"
  proof (cases "r = []")
    case True
    with t ip show ?thesis by (simp add: list_all_digit_last)
  next
    case False
    with numeric_tail_last [OF r False] t show ?thesis by simp
  qed
  have "\<not> py_isspace (CHR ''-'')" by (simp add: py_isspace_def)
  with hd_t have "\<not> py_isspace (hd t)" by (auto simp: digit_not_space)
  moreover have "\<not> py_isspace (last t)" using last_t by (simp add: digit_not_space)
  ultimately show strip: "py_strip t = t" using ne by (intro py_strip_id)
  show "\<not> startswith t [DOUBLE_QUOTE]"
    using t sg ipc yn by (auto simp: startswith_def DOUBLE_QUOTE_def)
  show "\<not> is_boolean_or_null_literal t"
    using t sg ipc y
    by (auto simp: is_boolean_or_null_literal_def TRUE_LITERAL_def FALSE_LITERAL_def
        NULL_LITERAL_def is_digit_def)
  have os: "opt_sign t = (sg = ''-'', ip @ r)"
    using t sg ipc yn by (auto simp: opt_sign_def)
  from float_number_numeric [OF ip r, of "sg = ''-''"] obtain c e where
    fl: "float_number (sg = ''-'') (ip @ r) = Some (Finite (sg = ''-'') c e)" by blast
  have lw: "lower (ip @ r) \<noteq> ''inf'' \<and> lower (ip @ r) \<noteq> ''infinity'' \<and> lower (ip @ r) \<noteq> ''nan''"
    using lower_digit_hd [OF y, of "ys @ r"] ipc by simp
  show "\<exists>c e. py_float t = Some (Finite (sg = ''-'') c e)"
    using strip os fl lw by (simp add: py_float_def)
  show "hd t = CHR ''-'' \<longleftrightarrow> sg = ''-''" using t sg ipc yn by auto
  show r_nil: "r = []" if "CHR ''.'' \<notin> set t \<and> CHR ''e'' \<notin> set t \<and> CHR ''E'' \<notin> set t"
  proof (rule ccontr)
    assume "r \<noteq> []"
    from numeric_tail_last [OF r this] have "hd r = CHR ''.'' \<or> hd r = CHR ''e'' \<or> hd r = CHR ''E''"
      by simp
    moreover from \<open>r \<noteq> []\<close> have "hd r \<in> set t" using t by simp
    ultimately show False using that by auto
  qed
  show "py_int t = Some (if sg = ''-'' then - int (digits_val ip) else int (digits_val ip))"
    if "CHR ''.'' \<notin> set t \<and> CHR ''e'' \<notin> set t \<and> CHR ''E'' \<notin> set t"
  proof -
    from r_nil [OF that] have rn: "r = []" .
    have "digitpart (ip @ []) = Some (ip, [])" using ip by (intro digitpart_digits) auto
    with rn strip os show ?thesis by (simp add: py_int_def)
  qed
qed


lemma numeric_token_decodes:
  assumes "re_numeric t"
  shows "if 1 < length t \<and> t ! 0 = CHR ''0'' \<and> t ! 1 \<noteq> CHR ''.''
         then parse_primitive_token t = Inr (JStr t)
         else if CHR ''.'' \<in> set t \<or> CHR ''e'' \<in> set t \<or> CHR ''E'' \<in> set t
         then (\<exists>c e. parse_primitive_token t = Inr (JFloat (Finite (hd t = CHR ''-'') c e)))
         else parse_primitive_token t
              = Inr (JInt (if hd t = CHR ''-'' then - int (digits_val (tl t)) else int (digits_val t)))"
proof -
  from re_numeric_shape [OF assms] obtain sg ip r where
    t: "t = sg @ ip @ r" and sg: "sg = [] \<or> sg = ''-''" and ip: "ip \<noteq> []" "list_all is_digit ip"
    and r: "re_opt_exponent (re_opt_fraction r) = []" by blast
  note F = numeric_token_facts [OF t sg ip r]
  from F(5) obtain c e where fl: "py_float t = Some (Finite (sg = ''-'') c e)" by blast
  show ?thesis
  proof (cases "1 < length t \<and> t ! 0 = CHR ''0'' \<and> t ! 1 \<noteq> CHR ''.''")
    case True
    then have "\<not> is_numeric_literal t" by (simp add: is_numeric_literal_def)
    with True F(1-4) show ?thesis by (simp add: parse_primitive_token_def)
  next
    case False
    with F(2) fl have num: "is_numeric_literal t"
      by (simp add: is_numeric_literal_def isnan_def)
    show ?thesis
    proof (cases "CHR ''.'' \<in> set t \<or> CHR ''e'' \<in> set t \<or> CHR ''E'' \<in> set t")
      case True
      with False num F(1-4) F(7) fl show ?thesis
        by (simp add: parse_primitive_token_def)
    next
      case nodot: False
      then have nd: "CHR ''.'' \<notin> set t \<and> CHR ''e'' \<notin> set t \<and> CHR ''E'' \<notin> set t" by simp
      from F(8) [OF nd] have rn: "r = []" .
      from F(6) [OF nd] have pi: "py_int t
        = Some (if sg = ''-'' then - int (digits_val ip) else int (digits_val ip))" .
      have "(if hd t = CHR ''-'' then - int (digits_val (tl t)) else int (digits_val t))
            = (if sg = ''-'' then - int (digits_val ip) else int (digits_val ip))"
        using F(7) t sg rn by auto
      with False nodot num F(1-4) pi show ?thesis
        by (simp add: parse_primitive_token_def)
    qed
  qed
qed




text \<open>
  Outside the pattern \<open>is_numeric_literal\<close> follows \<open>float\<close>, which reads more than
  the pattern: \<open>+5\<close> is decoded as the number 5, and \<open>inf\<close> fails in \<open>int\<close>.
\<close>

lemma tokens_outside_pattern:
  "parse_primitive_token ''inf'' = Inl IntValueError
   \<and> parse_primitive_token ''+5'' = Inr (JInt 5)
   \<and> \<not> re_numeric ''inf'' \<and> \<not> re_numeric ''+5''"
  by code_simp

subsection \<open>Tabular eligibility\<close>

lemma row_tabular_iff:
  assumes dk: "distinct (map fst kvs)" and dh: "distinct header"
  shows "(length (map fst kvs) = length header \<and> row_has_primitives kvs header)
         \<longleftrightarrow> (set (map fst kvs) = set header \<and> list_all (\<lambda>kv. is_json_primitive (snd kv)) kvs)"
proof
  assume lhs: "length (map fst kvs) = length header \<and> row_has_primitives kvs header"
  then have prim: "\<And>k. k \<in> set header \<Longrightarrow> \<exists>v. map_of kvs k = Some v \<and> is_json_primitive v"
    by (auto simp: row_has_primitives_def list_all_iff dict_get_def split: option.splits)
  have sub: "set header \<subseteq> set (map fst kvs)"
  proof
    fix k assume "k \<in> set header"
    then obtain v where "map_of kvs k = Some v" using prim by blast
    then have "(k, v) \<in> set kvs" by (rule map_of_SomeD)
    then show "k \<in> set (map fst kvs)" by force
  qed
  have "card (set header) = card (set (map fst kvs))"
    using lhs distinct_card [OF dk] distinct_card [OF dh] by (simp only:)
  with sub have eq: "set (map fst kvs) = set header"
    by (metis card_subset_eq List.finite_set)
  have "is_json_primitive (snd kv)" if "kv \<in> set kvs" for kv
  proof -
    obtain k v where kv: "kv = (k, v)" by (cases kv)
    with that have "k \<in> set (map fst kvs)" by force
    with eq obtain v' where v': "map_of kvs k = Some v'" "is_json_primitive v'"
      using prim by blast
    from dk that kv have "map_of kvs k = Some v" by simp
    with v' kv show ?thesis by simp
  qed
  with eq show "set (map fst kvs) = set header \<and> list_all (\<lambda>kv. is_json_primitive (snd kv)) kvs"
    by (simp add: list_all_iff)
next
  assume rhs: "set (map fst kvs) = set header \<and> list_all (\<lambda>kv. is_json_primitive (snd kv)) kvs"
  then have "card (set (map fst kvs)) = card (set header)" by simp
  with dk dh have len: "length (map fst kvs) = length header"
    by (metis distinct_card)
  have "\<exists>v. map_of kvs k = Some v \<and> is_json_primitive v" if "k \<in> set header" for k
  proof -
    from that rhs have "k \<in> set (map fst kvs)" by simp
    then obtain v where in_kvs: "(k, v) \<in> set kvs" by force
    with dk have "map_of kvs k = Some v" by simp
    moreover from in_kvs rhs have "is_json_primitive v" by (auto simp: list_all_iff)
    ultimately show ?thesis by blast
  qed
  then have "row_has_primitives kvs header"
    unfolding row_has_primitives_def list_all_iff dict_get_def by fastforce
  with len show "length (map fst kvs) = length header \<and> row_has_primitives kvs header" by simp
qed

lemma extract_tabular_header_eligible:
  assumes ne: "rows \<noteq> []"
    and objs: "list_all is_json_object rows"
    and dk: "\<forall>kvs. JObj kvs \<in> set rows \<longrightarrow> distinct (map fst kvs)"
  shows "extract_tabular_header rows =
           (if tabular_eligible rows then Some (object_keys (hd rows)) else None)"
proof -
  from ne obtain r rs where rows: "rows = r # rs" by (cases rows) auto
  with objs obtain kvs0 where r: "r = JObj kvs0"
    by (cases r) (auto simp: is_json_object_def)
  let ?h = "map fst kvs0"
  have dh: "distinct ?h" using dk rows r by auto
  have hd_keys: "object_keys (hd rows) = ?h" by (simp add: rows r object_keys_def)
  have row_eq: "(case row of JObj kvs \<Rightarrow> length (map fst kvs) = length ?h \<and> row_has_primitives kvs ?h
                  | _ \<Rightarrow> False)
        = (case row of JObj kvs \<Rightarrow> set (map fst kvs) = set ?h
                          \<and> list_all (\<lambda>kv. is_json_primitive (snd kv)) kvs
                  | _ \<Rightarrow> False)" if "row \<in> set rows" for row
  proof (cases row)
    case (JObj kvs)
    with that dk have "distinct (map fst kvs)" by blast
    from row_tabular_iff [OF this dh] JObj show ?thesis by simp
  qed simp_all
  have tab: "is_tabular_array rows ?h
       = list_all (\<lambda>row. case row of JObj kvs \<Rightarrow> set (map fst kvs) = set ?h
                          \<and> list_all (\<lambda>kv. is_json_primitive (snd kv)) kvs
                  | _ \<Rightarrow> False) rows"
    unfolding is_tabular_array_def by (rule list_all_cong) (simp_all add: row_eq)
  show ?thesis
  proof (cases "?h = []")
    case True
    then have "kvs0 = []" by simp
    then have "\<not> tabular_eligible rows" by (simp add: tabular_eligible_def rows r)
    moreover have "extract_tabular_header rows = None" using True by (simp add: extract_tabular_header_def rows r)
    ultimately show ?thesis by simp
  next
    case False
    have "tabular_eligible rows = is_tabular_array rows ?h"
    proof -
      have "(case row of JObj kvs \<Rightarrow> kvs \<noteq> [] \<and> set (map fst kvs) = set ?h
                          \<and> list_all (\<lambda>kv. is_json_primitive (snd kv)) kvs
                  | _ \<Rightarrow> False)
         = (case row of JObj kvs \<Rightarrow> set (map fst kvs) = set ?h
                          \<and> list_all (\<lambda>kv. is_json_primitive (snd kv)) kvs
                  | _ \<Rightarrow> False)" for row
        using False by (cases row) auto
      then have "(\<lambda>row. case row of JObj kvs \<Rightarrow> kvs \<noteq> [] \<and> set (map fst kvs) = set ?h
                          \<and> list_all (\<lambda>kv. is_json_primitive (snd kv)) kvs
                  | _ \<Rightarrow> False)
         = (\<lambda>row. case row of JObj kvs \<Rightarrow> set (map fst kvs) = set ?h
                          \<and> list_all (\<lambda>kv. is_json_primitive (snd kv)) kvs
                  | _ \<Rightarrow> False)" by (rule ext)
      then show ?thesis unfolding tab tabular_eligible_def hd_keys by (simp only:)
    qed
    moreover have "extract_tabular_header rows = (if is_tabular_array rows ?h then Some ?h else None)"
      using False by (simp add: extract_tabular_header_def rows r)
    ultimately show ?thesis by (simp add: hd_keys)
  qed
qed



subsection \<open>Coalescing\<close>

lemma length_chunk_join:
  "0 < k \<Longrightarrow> length vs = k * m \<Longrightarrow> length (chunk_join d k vs) = m"
proof (induction m arbitrary: vs)
  case 0
  then show ?case by (simp add: chunk_join.simps)
next
  case (Suc m)
  from Suc.prems have ne: "vs \<noteq> []" by auto
  from Suc.prems have "length (drop k vs) = k * m" by simp
  with Suc.IH Suc.prems(1) have "length (chunk_join d k (drop k vs)) = m" by blast
  with ne Suc.prems(1) show ?case by (subst chunk_join.simps) simp
qed

lemma div_gt:
  assumes "0 < (e::int)" "e < n" "n mod e = 0" shows "1 < n div e"
proof -
  from assms obtain q where q: "n = e * q" by auto
  have "1 < q"
  proof (rule ccontr)
    assume "\<not> 1 < q"
    then have "q \<le> 1" by simp
    with assms(1) have "e * q \<le> e * 1" by (intro mult_left_mono) auto
    with q assms(2) show False by simp
  qed
  with q assms show ?thesis by simp
qed

text \<open>
  C5 (as amended).  When a split yields more tokens than expected (\<open>0 < expected\<close>):
  a tabular row always keeps the first \<open>expected - 1\<close> tokens and merges all the
  others into one token, joined by the delimiter, whether or not the count is a
  multiple of \<open>expected\<close>; only the inline primitive array rejoins an evenly divisible
  count into \<open>expected\<close> equal chunks and merges the tail otherwise.  Both results
  hold exactly \<open>expected\<close> tokens.
\<close>

theorem C5_row_coalescing:
  assumes "0 < expected" and "expected < int (length vals)"
  shows "coalesce_row_values vals expected d =
           take (nat (expected - 1)) vals @ [py_join d (drop (nat (expected - 1)) vals)]
       \<and> coalesce_inline_values vals expected d =
           (if int (length vals) mod expected = 0
            then chunk_join d (nat (int (length vals) div expected)) vals
            else take (nat (expected - 1)) vals @ [py_join d (drop (nat (expected - 1)) vals)])
       \<and> int (length (coalesce_row_values vals expected d)) = expected
       \<and> int (length (coalesce_inline_values vals expected d)) = expected"
proof -
  let ?merged = "take (nat (expected - 1)) vals @ [py_join d (drop (nat (expected - 1)) vals)]"
  have row: "coalesce_row_values vals expected d = ?merged"
    using assms by (simp add: coalesce_row_values_def)
  have len_merged: "int (length ?merged) = expected"
    using assms by (simp add: min_def)
  have inl: "coalesce_inline_values vals expected d =
           (if int (length vals) mod expected = 0
            then chunk_join d (nat (int (length vals) div expected)) vals
            else ?merged)"
  proof (cases "int (length vals) mod expected = 0")
    case True
    with assms have "1 < int (length vals) div expected" by (intro div_gt)
    with True assms show ?thesis by (simp add: coalesce_inline_values_def)
  next
    case False
    then have "expected \<noteq> 1" by auto
    with False assms show ?thesis by (simp add: coalesce_inline_values_def)
  qed
  have len_inl: "int (length (coalesce_inline_values vals expected d)) = expected"
  proof (cases "int (length vals) mod expected = 0")
    case True
    define q where "q = int (length vals) div expected"
    from True have q: "int (length vals) = expected * q"
      unfolding q_def by auto
    from assms True have qpos: "1 < q" unfolding q_def by (intro div_gt)
    have "int (length vals) = int (nat q * nat expected)"
      using q qpos assms by (simp add: mult.commute)
    then have "length vals = nat q * nat expected" by (simp only: of_nat_eq_iff)
    with qpos have "length (chunk_join d (nat q) vals) = nat expected"
      by (intro length_chunk_join) auto
    with True assms show ?thesis unfolding inl q_def by simp
  next
    case False
    then show ?thesis unfolding inl using len_merged by simp
  qed
  from row inl len_merged len_inl show ?thesis by simp
qed

theorem C5_row_coalescing_witness:
  "coalesce_row_values [''1'', ''2'', ''3'', ''4'', ''5''] 2 COMMA = [''1'', ''2,3,4,5'']
   \<and> coalesce_inline_values [''1'', ''2'', ''3'', ''4'', ''5''] 2 COMMA = [''1'', ''2,3,4,5'']"
  using C5_row_coalescing [of 2 "[''1'', ''2'', ''3'', ''4'', ''5'']" COMMA]
  by (simp add: COMMA_def)

text \<open>
  C5 as stated fails on a row of four tokens under a two-field header: the row is
  not rejoined into two chunks of two, as the inline array is.
\<close>

theorem C5_counterexample:
  "coalesce_row_values [''a'', ''b'', ''c'', ''d''] 2 COMMA = [''a'', ''b,c,d'']
   \<and> coalesce_inline_values [''a'', ''b'', ''c'', ''d''] 2 COMMA = [''a,b'', ''c,d'']
   \<and> coalesce_row_values [''a'', ''b'', ''c'', ''d''] 2 COMMA
       \<noteq> chunk_join COMMA 2 [''a'', ''b'', ''c'', ''d'']"
  by (simp add: coalesce_row_values_def coalesce_inline_values_def chunk_join.simps COMMA_def)

subsection \<open>Rendering of numbers\<close>

lemma digit_char_is_digit: "n < 10 \<Longrightarrow> is_digit (digit_char n)"
proof -
  assume "n < 10"
  then have "n \<in> {0, 1, 2, 3, 4, 5, 6, 7, 8, 9}" by auto
  then show ?thesis by (auto simp: digit_char_def is_digit_def)
qed

lemma str_nat_digits: "list_all is_digit (str_nat n)"
proof (induction n rule: str_nat.induct)
  case (1 n)
  show ?case
  proof (cases "n < 10")
    case True
    then show ?thesis by (subst str_nat.simps) (simp add: digit_char_is_digit)
  next
    case False
    with 1 have "list_all is_digit (str_nat (n div 10))" by simp
    moreover have "is_digit (digit_char (n mod 10))" by (rule digit_char_is_digit) simp
    ultimately show ?thesis using False by (subst str_nat.simps) simp
  qed
qed

lemma str_nat_no_point: "CHR ''.'' \<notin> set (str_nat n)"
proof
  assume "CHR ''.'' \<in> set (str_nat n)"
  with str_nat_digits [of n] have "is_digit (CHR ''.'')" by (simp add: list_all_iff)
  then show False by (simp add: is_digit_def)
qed

text \<open>
  C6 (as amended).  \<open>encode_primitive\<close> renders every Number held as an \<open>int\<close> as
  its decimal text, which has no decimal point.  A Number held as a \<open>float\<close> is
  rendered by \<open>str\<close>: an integer-valued float of at most sixteen integer digits
  is its digits followed by \<open>.0\<close>.
\<close>

theorem C6_number_rendering:
  "encode_primitive (JInt i) d = Inr (py_str_int i)
   \<and> CHR ''.'' \<notin> set (py_str_int i)
   \<and> (0 \<le> e \<and> int (length (str_nat c)) + e \<le> 16 \<longrightarrow>
        encode_primitive (JFloat (Finite neg c e)) d =
          Inr ((if neg then ''-'' else '''') @ str_nat c @ replicate (nat e) (CHR ''0'') @ ''.0''))"
proof -
  have "CHR ''.'' \<notin> set (py_str_int i)"
    using str_nat_no_point by (simp add: py_str_int_def)
  moreover have "encode_primitive (JFloat (Finite neg c e)) d =
          Inr ((if neg then ''-'' else '''') @ str_nat c @ replicate (nat e) (CHR ''0'') @ ''.0'')"
    if "0 \<le> e" "int (length (str_nat c)) + e \<le> 16"
  proof -
    have "str_nat c \<noteq> []" by (subst str_nat.simps) simp
    then have "0 < length (str_nat c)" by simp
    then have "\<not> int (length (str_nat c)) + e \<le> 0" using that by linarith
    with that show ?thesis
      by (simp add: encode_primitive_def py_str_float_def Let_def)
  qed
  ultimately show ?thesis by (simp add: encode_primitive_def)
qed

theorem C6_number_rendering_witness:
  "encode_primitive (JInt 42) COMMA = Inr ''42''
   \<and> encode_primitive (JFloat (Finite True 12 1)) COMMA = Inr ''-120.0''"
  using C6_number_rendering [of 42 COMMA 1 12 True]
  by (simp add: py_str_int_def str_nat.simps digit_char_def)

text \<open>
  C6 as stated fails on the float \<open>3.0\<close>, an integer held as floating point: it is
  rendered with a decimal point.
\<close>

theorem C6_counterexample:
  "encode_primitive (JFloat (Finite False 3 0)) COMMA = Inr ''3.0''
   \<and> CHR ''.'' \<in> set ''3.0''"
  by (simp add: encode_primitive_def py_str_float_def str_nat.simps digit_char_def)

subsection \<open>Strict-mode rejection\<close>

text \<open>
  C7.  Decoding \<open>items[3]: a,b\<close> in strict mode fails with the count mismatch of
  the inline array (3 declared, 2 read); with strict mode off it returns the
  object \<open>{items: ["a", "b"]}\<close>.
\<close>

theorem C7_strict_mode_rejection:
  "decode ''items[3]: a,b'' (default_decode_options\<lparr>strict := True\<rparr>)
     = Inl (CountMismatch ''inline array items'' 3 2)
   \<and> decode ''items[3]: a,b'' (default_decode_options\<lparr>strict := False\<rparr>)
     = Inr (JObj [(''items'', JArr [JStr ''a'', JStr ''b''])])"
  by code_simp

subsection \<open>Duplicate keys\<close>

lemma decode_object_loop_bindings:
  "decode_object_loop n ls i base_depth opts obj =
     (case object_bindings n ls i base_depth opts of
        Inl e \<Rightarrow> Inl e
      | Inr (kvs, i') \<Rightarrow> Inr (dict_of_bindings obj kvs, i'))"
proof (induction n arbitrary: i obj)
  case 0
  show ?case by (simp add: decoder_out_of_fuel)
next
  case (Suc n)
  show ?case
    by (simp add: decode_object_loop_Suc decode_object_loop_body_def Suc.IH dict_of_bindings_def
        split: option.split sum.split prod.split)
qed

lemma distinct_dict_set: "distinct (map fst d) \<Longrightarrow> distinct (map fst (dict_set d k v))"
  by (simp add: dict_set_def distinct_update)

lemma dict_get_dict_set: "dict_get (dict_set d k v) k' = (if k' = k then Some v else dict_get d k')"
  by (simp add: dict_set_def dict_get_def update_conv')

lemma dict_of_bindings_distinct:
  "distinct (map fst obj) \<Longrightarrow> distinct (map fst (dict_of_bindings obj kvs))"
  unfolding dict_of_bindings_def
  by (induction kvs arbitrary: obj) (simp_all add: distinct_dict_set)

lemma dict_of_bindings_get:
  "dict_get (dict_of_bindings obj kvs) k =
     (case map_of (rev kvs) k of Some v \<Rightarrow> Some v | None \<Rightarrow> dict_get obj k)"
  unfolding dict_of_bindings_def
proof (induction kvs arbitrary: obj)
  case Nil
  show ?case by simp
next
  case (Cons kv kvs)
  show ?case
    by (cases kv) (auto simp: Cons.IH dict_get_dict_set map_add_def split: option.split)
qed

text \<open>
  C10.  Whatever keys the lines of an object body bind, repeated or not, once
  each line has been read \<open>decode_object\<close> returns an object: it has one entry
  per key, and the value of a key is the one bound by the last line that binds
  it (\<open>map_of (rev kvs)\<close> looks the bindings up from the last to the first).
\<close>

theorem C10_last_binding_wins:
  assumes "object_bindings n ls i base_depth opts = Inr (kvs, i')"
  shows "\<exists>obj. decode_object n ls i base_depth opts = Inr (obj, i')
           \<and> distinct (map fst obj)
           \<and> (\<forall>k. dict_get obj k = map_of (rev kvs) k)"
proof -
  have "decode_object n ls i base_depth opts = Inr (dict_of_bindings [] kvs, i')"
    using assms by (simp add: decode_object_def decode_object_loop_bindings)
  moreover have "distinct (map fst (dict_of_bindings [] kvs))"
    by (rule dict_of_bindings_distinct) simp
  moreover have "dict_get (dict_of_bindings [] kvs) k = map_of (rev kvs) k" for k
    using dict_of_bindings_get [of "[]" kvs k] by (simp add: dict_get_def split: option.split)
  ultimately show ?thesis by blast
qed

theorem C10_last_binding_wins_witness:
  "object_bindings 32 (\<lparr>pl_raw = ''a: 1'', pl_depth = 0, pl_indent = 0, pl_content = ''a: 1''\<rparr>
      # \<lparr>pl_raw = ''b: 2'', pl_depth = 0, pl_indent = 0, pl_content = ''b: 2''\<rparr>
      # [\<lparr>pl_raw = ''a: 3'', pl_depth = 0, pl_indent = 0, pl_content = ''a: 3''\<rparr>]) 0 0 default_decode_options
     = Inr ([(''a'', JInt 1), (''b'', JInt 2), (''a'', JInt 3)], 3)
   \<and> (\<exists>obj. decode_object 32 (\<lparr>pl_raw = ''a: 1'', pl_depth = 0, pl_indent = 0, pl_content = ''a: 1''\<rparr>
      # \<lparr>pl_raw = ''b: 2'', pl_depth = 0, pl_indent = 0, pl_content = ''b: 2''\<rparr>
      # [\<lparr>pl_raw = ''a: 3'', pl_depth = 0, pl_indent = 0, pl_content = ''a: 3''\<rparr>]) 0 0 default_decode_options = Inr (obj, 3)
         \<and> distinct (map fst obj) \<and> dict_get obj ''a'' = Some (JInt 3))"
proof -
  have b: "object_bindings 32 (\<lparr>pl_raw = ''a: 1'', pl_depth = 0, pl_indent = 0, pl_content = ''a: 1''\<rparr>
      # \<lparr>pl_raw = ''b: 2'', pl_depth = 0, pl_indent = 0, pl_content = ''b: 2''\<rparr>
      # [\<lparr>pl_raw = ''a: 3'', pl_depth = 0, pl_indent = 0, pl_content = ''a: 3''\<rparr>]) 0 0 default_decode_options
     = Inr ([(''a'', JInt 1), (''b'', JInt 2), (''a'', JInt 3)], 3)"
    by code_simp
  from C10_last_binding_wins [OF b] show ?thesis using b by auto
qed

lemma decode_duplicate_key_example:
  "decode (''a: 1'' @ [NEWLINE] @ ''b: 2'' @ [NEWLINE] @ ''a: 3'') default_decode_options
     = Inr (JObj [(''a'', JInt 3), (''b'', JInt 2)])"
  by code_simp

subsection \<open>Strict and non-strict decoding\<close>

lemma agree_refl: "agree r r"
  by (simp add: agree_def)

lemma agree_bind:
  assumes "agree r1 r2" and "\<And>x. agree (f1 x) (f2 x)"
  shows "agree (case r1 of Inl e \<Rightarrow> Inl e | Inr x \<Rightarrow> f1 x) (case r2 of Inl e \<Rightarrow> Inl e | Inr x \<Rightarrow> f2 x)"
proof (cases r1)
  case (Inl e)
  with assms(1) show ?thesis by (auto simp: agree_def)
next
  case (Inr x)
  with assms(1) have "r2 = Inr x" by (auto simp: agree_def)
  with Inr assms(2) [of x] show ?thesis by simp
qed

lemma agree_map_sum:
  assumes "agree r1 r2"
  shows "agree (map_sum id f r1) (map_sum id f r2)"
  using assms by (cases r1; cases r2) (auto simp: agree_def)

lemma agree_assert:
  assumes "strict o1" "\<not> strict o2"
  shows "agree (assert_expected_count a e l o1) (assert_expected_count a e l o2)"
  using assms by (simp add: agree_def assert_expected_count_def count_error_def)

lemma agree_inline:
  assumes "strict o1" "\<not> strict o2"
  shows "agree (decode_inline_primitive_array h s o1) (decode_inline_primitive_array h s o2)"
  unfolding decode_inline_primitive_array_def Let_def
  by (intro agree_bind agree_refl agree_assert assms)

lemma agree_tabular_row:
  assumes "strict o1" "\<not> strict o2"
  shows "agree (decode_tabular_row h line o1) (decode_tabular_row h line o2)"
  unfolding decode_tabular_row_def Let_def
  by (intro agree_bind agree_refl agree_assert assms)

lemma agree_tabular_loop:
  assumes "strict o1" "\<not> strict o2"
  shows "agree (tabular_loop h ls i rd o1 objs) (tabular_loop h ls i rd o2 objs)"
proof (induction "length ls - i" arbitrary: i objs rd)
  case 0
  then show ?case by (simp add: tabular_loop.simps agree_refl)
next
  case (Suc k)
  have step: "agree (tabular_loop h ls (Suc i) rd' o1 objs') (tabular_loop h ls (Suc i) rd' o2 objs')"
    if "\<not> length ls \<le> i" for objs' rd'
    using Suc that by (intro Suc.hyps(1)) simp
  show ?case
    apply (subst tabular_loop.simps)
    apply (subst (2) tabular_loop.simps)
    apply (auto intro!: agree_refl agree_bind agree_tabular_row assms step)
    done
qed

lemma agree_tabular_finish:
  assumes "strict o1" "\<not> strict o2"
  shows "agree (tabular_finish h ls i rd o1 objs) (tabular_finish h ls i rd o2 objs)"
  unfolding tabular_finish_def using assms
  by (auto simp: agree_def count_error_def assert_expected_count_def split: option.split)

lemma agree_tabular_array:
  assumes "strict o1" "\<not> strict o2"
  shows "agree (decode_tabular_array h ls i bd o1) (decode_tabular_array h ls i bd o2)"
  unfolding decode_tabular_array_def
  by (intro agree_bind agree_tabular_loop assms) (auto intro!: agree_tabular_finish assms)

lemma agree_list_finish:
  assumes "strict o1" "\<not> strict o2"
  shows "agree (list_finish h ls i d o1 items) (list_finish h ls i d o2 items)"
  unfolding list_finish_def using assms
  by (auto simp: agree_def count_error_def assert_expected_count_def split: option.split)


lemma object_loop_body_agree:
  assumes "\<And>ls i d obj. agree (ol ls i d o1 obj) (ol ls i d o2 obj)"
    and "\<And>line ls i d. agree (kvp line ls i d o1) (kvp line ls i d o2)"
  shows "agree (decode_object_loop_body ol kvp ls i d o1 obj)
               (decode_object_loop_body ol kvp ls i d o2 obj)"
  unfolding decode_object_loop_body_def
  by (auto intro!: agree_refl agree_bind assms split: option.split)

lemma key_value_pair_body_agree:
  assumes "\<And>content ls i d. agree (kv content ls i d o1) (kv content ls i d o2)"
  shows "agree (decode_key_value_pair_body kv line ls i d o1)
               (decode_key_value_pair_body kv line ls i d o2)"
  unfolding decode_key_value_pair_body_def
  by (auto intro!: agree_refl agree_bind assms)

lemma key_value_body_agree:
  assumes "\<And>h inl ls i d. agree (afh h inl ls i d o1) (afh h inl ls i d o2)"
    and "\<And>ls i d obj. agree (ol ls i d o1 obj) (ol ls i d o2 obj)"
  shows "agree (decode_key_value_body afh ol content ls i d o1)
               (decode_key_value_body afh ol content ls i d o2)"
  unfolding decode_key_value_body_def
  by (auto intro!: agree_refl agree_bind assms split: option.split)

lemma array_from_header_body_agree:
  assumes "strict o1" "\<not> strict o2"
    and "\<And>h ls i d items. agree (ll h ls i d o1 items) (ll h ls i d o2 items)"
  shows "agree (decode_array_from_header_body ll h inl ls i d o1)
               (decode_array_from_header_body ll h inl ls i d o2)"
  unfolding decode_array_from_header_body_def
  by (auto intro!: agree_refl agree_bind agree_inline agree_tabular_array assms)

lemma list_loop_body_agree:
  assumes "strict o1" "\<not> strict o2"
    and "\<And>h ls i d items. agree (ll h ls i d o1 items) (ll h ls i d o2 items)"
    and "\<And>ls i d c. agree (li ls i d c o1) (li ls i d c o2)"
    and "\<And>h inl ls i d. agree (afh h inl ls i d o1) (afh h inl ls i d o2)"
  shows "agree (list_loop_body ll li afh h ls i d o1 items)
               (list_loop_body ll li afh h ls i d o2 items)"
  unfolding list_loop_body_def
  by (auto intro!: agree_refl agree_bind agree_list_finish assms split: option.split)

lemma list_item_body_agree:
  assumes "\<And>h inl ls i d. agree (afh h inl ls i d o1) (afh h inl ls i d o2)"
    and "\<And>line ls i d. agree (ofli line ls i d o1) (ofli line ls i d o2)"
  shows "agree (decode_list_item_body afh ofli ls i d c o1)
               (decode_list_item_body afh ofli ls i d c o2)"
  unfolding decode_list_item_body_def
  by (auto intro!: agree_refl agree_bind assms split: option.split)

lemma object_from_list_item_body_agree:
  assumes "\<And>content ls i d. agree (kv content ls i d o1) (kv content ls i d o2)"
    and "\<And>ls i d obj. agree (liol ls i d o1 obj) (liol ls i d o2 obj)"
  shows "agree (decode_object_from_list_item_body kv liol line ls i d o1)
               (decode_object_from_list_item_body kv liol line ls i d o2)"
  unfolding decode_object_from_list_item_body_def
  by (auto intro!: agree_refl agree_bind assms)

lemma list_item_object_loop_body_agree:
  assumes "\<And>ls i d obj. agree (liol ls i d o1 obj) (liol ls i d o2 obj)"
    and "\<And>line ls i d. agree (kvp line ls i d o1) (kvp line ls i d o2)"
  shows "agree (list_item_object_loop_body liol kvp ls i d o1 obj)
               (list_item_object_loop_body liol kvp ls i d o2 obj)"
  unfolding list_item_object_loop_body_def
  by (auto intro!: agree_refl agree_bind assms split: option.split)

lemma decoder_agree:
  assumes "strict o1" "\<not> strict o2"
  shows "(\<forall>ls i d obj. agree (decode_object_loop n ls i d o1 obj) (decode_object_loop n ls i d o2 obj))
       \<and> (\<forall>line ls i d. agree (decode_key_value_pair n line ls i d o1) (decode_key_value_pair n line ls i d o2))
       \<and> (\<forall>content ls i d. agree (decode_key_value n content ls i d o1) (decode_key_value n content ls i d o2))
       \<and> (\<forall>h inl ls i d. agree (decode_array_from_header n h inl ls i d o1) (decode_array_from_header n h inl ls i d o2))
       \<and> (\<forall>h ls i d items. agree (list_loop n h ls i d o1 items) (list_loop n h ls i d o2 items))
       \<and> (\<forall>ls i d c. agree (decode_list_item n ls i d c o1) (decode_list_item n ls i d c o2))
       \<and> (\<forall>line ls i d. agree (decode_object_from_list_item n line ls i d o1) (decode_object_from_list_item n line ls i d o2))
       \<and> (\<forall>ls i d obj. agree (list_item_object_loop n ls i d o1 obj) (list_item_object_loop n ls i d o2 obj))"
proof (induction n)
  case 0
  show ?case by (simp add: decoder_out_of_fuel agree_refl)
next
  case (Suc n)
  then have ol: "\<And>ls i d obj. agree (decode_object_loop n ls i d o1 obj) (decode_object_loop n ls i d o2 obj)"
    and kvp: "\<And>line ls i d. agree (decode_key_value_pair n line ls i d o1) (decode_key_value_pair n line ls i d o2)"
    and kv: "\<And>content ls i d. agree (decode_key_value n content ls i d o1) (decode_key_value n content ls i d o2)"
    and afh: "\<And>h inl ls i d. agree (decode_array_from_header n h inl ls i d o1) (decode_array_from_header n h inl ls i d o2)"
    and ll: "\<And>h ls i d items. agree (list_loop n h ls i d o1 items) (list_loop n h ls i d o2 items)"
    and li: "\<And>ls i d c. agree (decode_list_item n ls i d c o1) (decode_list_item n ls i d c o2)"
    and ofli: "\<And>line ls i d. agree (decode_object_from_list_item n line ls i d o1) (decode_object_from_list_item n line ls i d o2)"
    and liol: "\<And>ls i d obj. agree (list_item_object_loop n ls i d o1 obj) (list_item_object_loop n ls i d o2 obj)"
    by simp_all
  show ?case
    unfolding decoder_Suc
    by (intro conjI allI object_loop_body_agree key_value_pair_body_agree key_value_body_agree
          array_from_header_body_agree list_loop_body_agree list_item_body_agree
          object_from_list_item_body_agree list_item_object_loop_body_agree
          assms ol kvp kv afh ll li ofli liol)
qed

lemma decode_value_from_lines_agree:
  assumes "strict o1" "\<not> strict o2"
  shows "agree (decode_value_from_lines ls o1) (decode_value_from_lines ls o2)"
proof -
  note rec_array =
    decoder_agree [OF assms, THEN conjunct2, THEN conjunct2, THEN conjunct2, THEN conjunct1, rule_format]
  note rec_object = decoder_agree [OF assms, THEN conjunct1, rule_format]
  have afh: "agree (map_sum id fst (decode_array_from_header (fuel_for ls) h inl ls 1 0 o1))
                   (map_sum id fst (decode_array_from_header (fuel_for ls) h inl ls 1 0 o2))" for h inl
    by (rule agree_map_sum) (rule rec_array)
  have obj: "agree (map_sum id (\<lambda>r. JObj (fst r)) (decode_object (fuel_for ls) ls 0 0 o1))
                   (map_sum id (\<lambda>r. JObj (fst r)) (decode_object (fuel_for ls) ls 0 0 o2))"
    unfolding decode_object_def by (rule agree_map_sum) (rule rec_object)
  show ?thesis
  proof (cases "peek ls 0")
    case None
    then show ?thesis by (simp add: decode_value_from_lines_def agree_refl)
  next
    case first: (Some first)
    have rest: "agree (if length ls = 1 \<and> \<not> is_key_value_line first
                   then parse_primitive_token (py_strip (pl_content first))
                   else map_sum id (\<lambda>r. JObj (fst r)) (decode_object (fuel_for ls) ls 0 0 o1))
                  (if length ls = 1 \<and> \<not> is_key_value_line first
                   then parse_primitive_token (py_strip (pl_content first))
                   else map_sum id (\<lambda>r. JObj (fst r)) (decode_object (fuel_for ls) ls 0 0 o2))"
      using obj by (simp add: agree_refl)
    show ?thesis
    proof (cases "is_root_array_header_line first")
      case False
      with first rest show ?thesis by (simp add: decode_value_from_lines_def)
    next
      case True
      show ?thesis
      proof (cases "parse_array_header_line (pl_content first) DEFAULT_DELIMITER")
        case (Inl e)
        with first True show ?thesis by (simp add: decode_value_from_lines_def agree_refl)
      next
        case (Inr x)
        show ?thesis
        proof (cases x)
          case None
          with first True Inr rest show ?thesis by (simp add: decode_value_from_lines_def)
        next
          case (Some hi)
          obtain h inl where "hi = (h, inl)" by (cases hi)
          with first True Inr Some afh [of h inl] show ?thesis
            by (simp add: decode_value_from_lines_def)
        qed
      qed
    qed
  qed
qed

lemma decode_agree:
  assumes "strict o1" "\<not> strict o2" "dec_indent o1 = dec_indent o2"
  shows "agree (decode text o1) (decode text o2)"
  unfolding decode_def using assms(3) decode_value_from_lines_agree [OF assms(1,2)]
  by (auto intro!: agree_refl split: sum.split)



subsection \<open>The encoder never fails\<close>

lemma encode_primitive_ok:
  "is_json_primitive v \<Longrightarrow> \<exists>t. encode_primitive v d = Inr t"
  by (cases v) (simp_all add: encode_primitive_def is_json_primitive_def)

lemma sequence_res_ok:
  "(\<And>r. r \<in> set rs \<Longrightarrow> \<exists>x. r = Inr x \<and> Q x) \<Longrightarrow> \<exists>xs. sequence_res rs = Inr xs \<and> list_all Q xs"
proof (induction rs)
  case Nil
  show ?case by simp
next
  case (Cons r rs)
  from Cons.prems [of r] obtain x where x: "r = Inr x" "Q x" by auto
  from Cons.IH Cons.prems obtain xs where "sequence_res rs = Inr xs" "list_all Q xs" by auto
  with x show ?case by simp
qed

lemma encode_and_join_primitives_ok:
  assumes "list_all is_json_primitive vs"
  shows "\<exists>t. encode_and_join_primitives vs d = Inr t"
proof -
  have "\<exists>xs. sequence_res (map (\<lambda>v. encode_primitive v d) vs) = Inr xs \<and> list_all (\<lambda>_. True) xs"
  proof (rule sequence_res_ok)
    fix r assume "r \<in> set (map (\<lambda>v. encode_primitive v d) vs)"
    then obtain v where "v \<in> set vs" "r = encode_primitive v d" by auto
    with assms show "\<exists>x. r = Inr x \<and> True"
      using encode_primitive_ok [of v d] by (auto simp: list_all_iff)
  qed
  then show ?thesis by (auto simp: encode_and_join_primitives_def)
qed

lemma encode_inline_array_line_ok:
  "list_all is_json_primitive vs \<Longrightarrow> \<exists>t. encode_inline_array_line vs d p m = Inr t"
  using encode_and_join_primitives_ok [of vs d]
  by (auto simp: encode_inline_array_line_def Let_def)

lemma array_items_loop_ok: "\<exists>w'. array_items_loop vs w d opts = Inr w'"
proof (induction vs arbitrary: w)
  case Nil
  show ?case by simp
next
  case (Cons arr rest)
  show ?case
  proof (cases "is_array_of_primitives arr")
    case True
    then obtain xs where xs: "arr = JArr xs" "list_all is_json_primitive xs"
      by (cases arr) (auto simp: is_array_of_primitives_def)
    from encode_inline_array_line_ok [OF xs(2)] obtain t
      where "encode_inline_array_line xs (delimiter opts) None (lengthMarker opts) = Inr t" by blast
    with True xs Cons.IH show ?thesis by simp
  next
    case False
    with Cons.IH show ?thesis by simp
  qed
qed

lemma row_values_ok:
  assumes "row_has_primitives kvs header"
  shows "\<exists>vs. row_values kvs header = Inr vs \<and> list_all is_json_primitive vs"
  unfolding row_values_def
proof (rule sequence_res_ok)
  fix r
  assume "r \<in> set (map (\<lambda>key. case dict_get kvs key of None \<Rightarrow> Inl KeyError | Some v \<Rightarrow> Inr v) header)"
  then obtain key where "key \<in> set header"
    and r: "r = (case dict_get kvs key of None \<Rightarrow> Inl KeyError | Some v \<Rightarrow> Inr v)" by auto
  with assms obtain v where "dict_get kvs key = Some v" "is_json_primitive v"
    by (auto simp: row_has_primitives_def list_all_iff split: option.splits)
  with r show "\<exists>x. r = Inr x \<and> is_json_primitive x" by simp
qed

lemma write_tabular_rows_ok:
  "is_tabular_array rows header \<Longrightarrow> \<exists>w'. write_tabular_rows rows header w d opts = Inr w'"
proof (induction rows arbitrary: w)
  case Nil
  show ?case by simp
next
  case (Cons row rest)
  from Cons.prems obtain kvs where row: "row = JObj kvs" "row_has_primitives kvs header"
    and rest: "is_tabular_array rest header"
    by (cases row) (auto simp: is_tabular_array_def)
  from row_values_ok [OF row(2)] obtain vs
    where vs: "row_values kvs header = Inr vs" "list_all is_json_primitive vs" by blast
  from encode_and_join_primitives_ok [OF vs(2)] obtain t
    where "encode_and_join_primitives vs (delimiter opts) = Inr t" by blast
  with row vs Cons.IH [OF rest] show ?case by simp
qed

lemma extract_tabular_header_Some:
  "extract_tabular_header rows = Some header \<Longrightarrow> is_tabular_array rows header"
  by (auto simp: extract_tabular_header_def Let_def split: list.splits json.splits if_splits)

lemma encode_array_of_objects_as_tabular_ok:
  "extract_tabular_header rows = Some header \<Longrightarrow>
   \<exists>w'. encode_array_of_objects_as_tabular key rows header w d opts = Inr w'"
  unfolding encode_array_of_objects_as_tabular_def
  by (intro write_tabular_rows_ok extract_tabular_header_Some)


lemma primitive_step_ok:
  "is_json_primitive v \<Longrightarrow>
   \<exists>w'. (case encode_primitive v d of Inl e \<Rightarrow> Inl e | Inr t \<Rightarrow> Inr (f t)) = Inr w'"
  using encode_primitive_ok [of v d] by auto

lemma inline_step_ok:
  "is_array_of_primitives (JArr xs) \<Longrightarrow>
   \<exists>w'. (case encode_inline_array_line xs d p m of Inl e \<Rightarrow> Inl e | Inr t \<Rightarrow> Inr (f t)) = Inr w'"
  using encode_inline_array_line_ok [of xs d p m] by (auto simp: is_array_of_primitives_def)

lemma encoder_ok:
  shows "\<exists>w'. encode_object kvs w d opts = Inr w'"
    and "\<exists>w'. encode_key_value_pair k v w d opts = Inr w'"
    and "\<exists>w'. encode_array key vs w d opts = Inr w'"
    and "\<exists>w'. encode_mixed_array_as_list_items key vs w d opts = Inr w'"
    and "\<exists>w'. mixed_items_loop vs w d opts = Inr w'"
    and "\<exists>w'. encode_object_as_list_item kvs w d opts = Inr w'"
    and "\<exists>w'. nested_objects_loop vs w d opts = Inr w'"
    and "\<exists>w'. nested_items_loop vs w d opts = Inr w'"
    and "\<exists>w'. extra_keys_loop kvs w d opts = Inr w'"
proof (induct kvs w d opts and k v w d opts and key vs w d opts and key vs w d opts
         and vs w d opts and kvs w d opts and vs w d opts and vs w d opts and kvs w d opts
       rule: encode_object_encode_key_value_pair_encode_array_encode_mixed_array_as_list_items_mixed_items_loop_encode_object_as_list_item_nested_objects_loop_nested_items_loop_extra_keys_loop.induct)
  case (1 w depth opts)
  show ?case by simp
next
  case (2 key member rest w depth opts)
  from 2(1) obtain w1 where w1: "encode_key_value_pair key member w depth opts = Inr w1" by blast
  from 2(2) [OF w1] w1 show ?case by simp
next
  case (3 key v w depth opts)
  show ?case
  proof (cases "is_json_primitive v")
    case True
    with primitive_step_ok [OF True] show ?thesis by (simp add: encode_key_value_pair.simps)
  next
    case False
    then show ?thesis
    proof (cases v)
      case (JArr xs)
      with False 3(1) show ?thesis by (simp add: encode_key_value_pair.simps)
    next
      case (JObj kvs)
      with False 3(2) show ?thesis by (simp add: encode_key_value_pair.simps)
    qed (simp_all add: is_json_primitive_def)
  qed
next
  case (4 key vs w depth opts)
  show ?case
  proof (cases "vs = []")
    case True
    then show ?thesis by (simp add: encode_array.simps)
  next
    case ne: False
    show ?thesis
    proof (cases "is_array_of_primitives (JArr vs)")
      case True
      with inline_step_ok [OF True] ne show ?thesis
        by (simp add: encode_array.simps encode_inline_primitive_array_def)
    next
      case np: False
      show ?thesis
      proof (cases "is_array_of_arrays (JArr vs) \<and> list_all is_array_of_primitives vs")
        case True
        with ne np array_items_loop_ok show ?thesis
          by (simp add: encode_array.simps encode_array_of_arrays_as_list_items_def)
      next
        case naa: False
        show ?thesis
        proof (cases "is_array_of_objects (JArr vs)")
          case ao: True
          show ?thesis
          proof (cases "extract_tabular_header vs")
            case None
            with ne np naa ao 4(1) show ?thesis by (auto simp: encode_array.simps)
          next
            case (Some header)
            from encode_array_of_objects_as_tabular_ok [OF Some] ne np naa ao Some
            show ?thesis by (auto simp: encode_array.simps)
          qed
        next
          case False
          with ne np naa 4(2) show ?thesis by (auto simp: encode_array.simps)
        qed
      qed
    qed
  qed
next
  case (5 prefix vs w depth opts)
  then show ?case by (simp add: encode_mixed_array_as_list_items.simps)
next
  case (6 w depth opts)
  show ?case by simp
next
  case (7 item rest w depth opts)
  let ?step = "(if is_json_primitive item then
           (case encode_primitive item (delimiter opts) of
              Inl e \<Rightarrow> Inl e
            | Inr t \<Rightarrow> Inr (push w (depth + 1) (LIST_ITEM_PREFIX @ t)))
         else case item of
                JArr xs \<Rightarrow>
                  (if is_array_of_primitives item then
                     (case encode_inline_array_line xs (delimiter opts) None (lengthMarker opts) of
                        Inl e \<Rightarrow> Inl e
                      | Inr inline \<Rightarrow> Inr (push w (depth + 1) (LIST_ITEM_PREFIX @ inline)))
                   else encode_array None xs w (depth + 1) opts)
              | JObj kvs \<Rightarrow> encode_object_as_list_item kvs w (depth + 1) opts
              | _ \<Rightarrow> Inr w)"
  have "\<exists>w1. ?step = Inr w1"
  proof (cases "is_json_primitive item")
    case True
    with primitive_step_ok [OF True] show ?thesis by simp
  next
    case False
    then show ?thesis
    proof (cases item)
      case (JArr xs)
      show ?thesis
      proof (cases "is_array_of_primitives item")
        case True
        with inline_step_ok [of xs] JArr False show ?thesis by simp
      next
        case nprim: False
        with False JArr 7(1) show ?thesis by simp
      qed
    next
      case (JObj kvs)
      with False 7(2) show ?thesis by simp
    qed (simp_all add: is_json_primitive_def)
  qed
  then obtain w1 where w1: "?step = Inr w1" by blast
  from 7(3) [OF w1] w1 show ?case by simp
next
  case (8 w depth opts)
  show ?case by simp
next
  case (9 first_key first_value extra w depth opts)
  let ?step = "(if is_json_primitive first_value then
           (case encode_primitive first_value (delimiter opts) of
              Inl e \<Rightarrow> Inl e
            | Inr t \<Rightarrow> Inr (push w depth (LIST_ITEM_PREFIX @ encode_key first_key @ '': '' @ t)))
         else case first_value of
                JArr xs \<Rightarrow>
                  (if is_array_of_primitives first_value then
                     (case encode_inline_array_line xs (delimiter opts) (Some first_key)
                             (lengthMarker opts) of
                        Inl e \<Rightarrow> Inl e
                      | Inr inline \<Rightarrow> Inr (push w depth (LIST_ITEM_PREFIX @ inline)))
                   else if is_array_of_objects first_value then
                     (case extract_tabular_header xs of
                        Some header \<Rightarrow>
                          write_tabular_rows xs header
                            (push w depth
                               (LIST_ITEM_PREFIX
                                @ format_header (length xs) (Some first_key) header
                                    (delimiter opts) (lengthMarker opts)))
                            (depth + 1) opts
                      | None \<Rightarrow>
                          nested_objects_loop xs
                            (push w depth
                               (LIST_ITEM_PREFIX @ encode_key first_key @ ''[''
                                @ py_str_int (int (length xs)) @ '']:''))
                            depth opts)
                   else
                     nested_items_loop xs
                       (push w depth
                          (LIST_ITEM_PREFIX @ encode_key first_key @ ''[''
                           @ py_str_int (int (length xs)) @ '']:''))
                       depth opts)
              | JObj kvs \<Rightarrow>
                  (if kvs = [] then Inr (push w depth (LIST_ITEM_PREFIX @ encode_key first_key @ '':''))
                   else encode_object kvs
                          (push w depth (LIST_ITEM_PREFIX @ encode_key first_key @ '':''))
                          (depth + 2) opts)
              | _ \<Rightarrow> Inr w)"
  have "\<exists>w1. ?step = Inr w1"
  proof (cases "is_json_primitive first_value")
    case True
    with primitive_step_ok [OF True] show ?thesis by simp
  next
    case False
    then show ?thesis
    proof (cases first_value)
      case (JArr xs)
      show ?thesis
      proof (cases "is_array_of_primitives first_value")
        case True
        with inline_step_ok [of xs] JArr False show ?thesis by simp
      next
        case nprim: False
        show ?thesis
        proof (cases "is_array_of_objects first_value")
          case ao: True
          show ?thesis
          proof (cases "extract_tabular_header xs")
            case None
            with False JArr nprim ao 9(1) show ?thesis by simp
          next
            case (Some header)
            from write_tabular_rows_ok [OF extract_tabular_header_Some [OF Some]]
              False JArr nprim ao Some show ?thesis by simp
          qed
        next
          case nao: False
          with False JArr nprim 9(2) show ?thesis by simp
        qed
      qed
    next
      case (JObj kvs)
      with False 9(3) show ?thesis by simp
    qed (simp_all add: is_json_primitive_def)
  qed
  then obtain w1 where w1: "?step = Inr w1" by blast
  from 9(4) [OF w1] w1 show ?case by simp
next
  case (10 w depth opts)
  show ?case by simp
next
  case (11 nested rest w depth opts)
  let ?step = "(case nested of
           JObj kvs \<Rightarrow> encode_object_as_list_item kvs w (depth + 1) opts
         | JArr xs \<Rightarrow>
             (if is_array_of_primitives nested then
                (case encode_inline_array_line xs (delimiter opts) None (lengthMarker opts) of
                   Inl e \<Rightarrow> Inl e
                 | Inr inline \<Rightarrow> Inr (push w (depth + 1) (LIST_ITEM_PREFIX @ inline)))
              else Inr w)
         | _ \<Rightarrow>
             (case encode_primitive nested (delimiter opts) of
                Inl e \<Rightarrow> Inl e
              | Inr t \<Rightarrow> Inr (push w (depth + 1) (LIST_ITEM_PREFIX @ t))))"
  have "\<exists>w1. ?step = Inr w1"
  proof (cases nested)
    case (JArr xs)
    show ?thesis
    proof (cases "is_array_of_primitives nested")
      case True
      with inline_step_ok [of xs] JArr show ?thesis by simp
    next
      case False
      with JArr show ?thesis by simp
    qed
  next
    case (JObj kvs)
    with 11(1) show ?thesis by simp
  qed (simp_all add: encode_primitive_def)
  then obtain w1 where w1: "?step = Inr w1" by blast
  from 11(2) [OF w1] w1 show ?case by simp
next
  case (12 w depth opts)
  show ?case by simp
next
  case (13 nested rest w depth opts)
  let ?step = "(if is_json_primitive nested then
           (case encode_primitive nested (delimiter opts) of
              Inl e \<Rightarrow> Inl e
            | Inr t \<Rightarrow> Inr (push w (depth + 1) (LIST_ITEM_PREFIX @ t)))
         else case nested of
                JArr xs \<Rightarrow>
                  (if is_array_of_primitives nested then
                     (case encode_inline_array_line xs (delimiter opts) None (lengthMarker opts) of
                        Inl e \<Rightarrow> Inl e
                      | Inr inline \<Rightarrow> Inr (push w (depth + 1) (LIST_ITEM_PREFIX @ inline)))
                   else Inr w)
              | JObj kvs \<Rightarrow> encode_object_as_list_item kvs w (depth + 1) opts
              | _ \<Rightarrow> Inr w)"
  have "\<exists>w1. ?step = Inr w1"
  proof (cases "is_json_primitive nested")
    case True
    with primitive_step_ok [OF True] show ?thesis by simp
  next
    case False
    then show ?thesis
    proof (cases nested)
      case (JArr xs)
      show ?thesis
      proof (cases "is_array_of_primitives nested")
        case True
        with inline_step_ok [of xs] JArr False show ?thesis by simp
      next
        case nprim: False
        with JArr False show ?thesis by simp
      qed
    next
      case (JObj kvs)
      with False 13(1) show ?thesis by simp
    qed (simp_all add: is_json_primitive_def)
  qed
  then obtain w1 where w1: "?step = Inr w1" by blast
  from 13(2) [OF w1] w1 show ?case by simp
next
  case (14 w depth opts)
  show ?case by simp
next
  case (15 extra_key v rest w depth opts)
  from 15(1) obtain w1 where w1: "encode_key_value_pair extra_key v w (depth + 1) opts = Inr w1" by blast
  from 15(2) [OF w1] w1 show ?case by simp
qed


end
